theory Spec2Isabelle
  imports Main "HOL-Library.Word" "HOL-Library.Sublist"
begin

unbundle bit_operations_syntax

section \<open>Bytes, C strings and fixed constants of reop.c\<close>

type_synonym byte = "8 word"
type_synonym bytes = "byte list"

text \<open>A C string ends at its first NUL: \<open>cstr\<close> is what \<open>strlen\<close>, \<open>strstr\<close> and the
  \<open>%s\<close> conversions see of a character buffer.\<close>

definition cstr :: "string \<Rightarrow> string" where
  "cstr s = takeWhile (\<lambda>c. c \<noteq> CHR 0x00) s"

definition bytes_of :: "string \<Rightarrow> bytes" where
  "bytes_of s = map (\<lambda>c. of_nat (of_char c)) s"

definition string_of :: "bytes \<Rightarrow> string" where
  "string_of bs = map (\<lambda>b. char_of (unat b)) bs"

definition SIGALG :: bytes where "SIGALG = bytes_of ''Ed''"
definition ENCALG :: bytes where "ENCALG = bytes_of ''eC''"
definition OLDENCALG :: bytes where "OLDENCALG = bytes_of ''CS''"
definition ENCKEYALG :: bytes where "ENCKEYALG = bytes_of ''CS''"
definition OLDEKCALG :: bytes where "OLDEKCALG = bytes_of ''eS''"
definition SYMALG :: bytes where "SYMALG = bytes_of ''SP''"
definition KDFALG :: bytes where "KDFALG = bytes_of ''BK''"
definition IDENTLEN :: nat where "IDENTLEN = 64"
definition RANDOMIDLEN :: nat where "RANDOMIDLEN = 8"

text \<open>Sizes fixed by libsodium's headers.\<close>

definition SIGBYTES :: nat where "SIGBYTES = 64"
definition SIGSECRETBYTES :: nat where "SIGSECRETBYTES = 64"
definition SIGPUBLICBYTES :: nat where "SIGPUBLICBYTES = 32"
definition ENCSECRETBYTES :: nat where "ENCSECRETBYTES = 32"
definition ENCPUBLICBYTES :: nat where "ENCPUBLICBYTES = 32"
definition ENCNONCEBYTES :: nat where "ENCNONCEBYTES = 24"
definition ENCTAGBYTES :: nat where "ENCTAGBYTES = 16"
definition SYMKEYBYTES :: nat where "SYMKEYBYTES = 32"
definition SYMNONCEBYTES :: nat where "SYMNONCEBYTES = 24"
definition SYMTAGBYTES :: nat where "SYMTAGBYTES = 16"

text \<open>\<open>memcmp(a, b, n)\<close>: zero when the first \<open>n\<close> bytes agree, otherwise the difference of
  the first pair of bytes that differ. Every call in reop.c compares arrays of at least
  \<open>n\<close> bytes.\<close>

definition memcmp :: "bytes \<Rightarrow> bytes \<Rightarrow> nat \<Rightarrow> int" where
  "memcmp a b n =
     (case find (\<lambda>(x, y). x \<noteq> y) (zip (take n a) (take n b)) of
        None \<Rightarrow> 0
      | Some (x, y) \<Rightarrow> int (unat x) - int (unat y))"

text \<open>\<open>strlcpy(dst, src, size)\<close> keeps at most \<open>size - 1\<close> characters of the C string.\<close>

definition strlcpy :: "string \<Rightarrow> nat \<Rightarrow> string" where
  "strlcpy src dsize = take (dsize - 1) (cstr src)"

text \<open>\<open>htonl\<close> and \<open>ntohl\<close>: a \<open>uint32_t\<close> in network order is kept as the four bytes
  it occupies in the struct, most significant first.\<close>

definition htonl :: "32 word \<Rightarrow> bytes" where
  "htonl w = [ucast (drop_bit 24 w), ucast (drop_bit 16 w), ucast (drop_bit 8 w), ucast w]"

definition ntohl :: "bytes \<Rightarrow> 32 word" where
  "ntohl bs =
     push_bit 24 (ucast (bs ! 0)) OR push_bit 16 (ucast (bs ! 1))
       OR push_bit 8 (ucast (bs ! 2)) OR ucast (bs ! 3)"

section \<open>The structs\<close>

record reop_seckey =
  sk_sigalg :: bytes
  sk_encalg :: bytes
  sk_symalg :: bytes
  sk_kdfalg :: bytes
  sk_randomid :: bytes
  sk_kdfrounds :: bytes
  sk_salt :: bytes
  sk_nonce :: bytes
  sk_tag :: bytes
  sk_sigkey :: bytes
  sk_enckey :: bytes
  sk_ident :: string

record reop_sig =
  sig_sigalg :: bytes
  sig_randomid :: bytes
  sig_sig :: bytes
  sig_ident :: string

record reop_pubkey =
  pk_sigalg :: bytes
  pk_encalg :: bytes
  pk_randomid :: bytes
  pk_sigkey :: bytes
  pk_enckey :: bytes
  pk_ident :: string

record reop_symmsg =
  sym_symalg :: bytes
  sym_kdfalg :: bytes
  sym_kdfrounds :: bytes
  sym_salt :: bytes
  sym_nonce :: bytes
  sym_tag :: bytes

record reop_encmsg =
  enc_encalg :: bytes
  enc_secrandomid :: bytes
  enc_pubrandomid :: bytes
  enc_ephpubkey :: bytes
  enc_ephnonce :: bytes
  enc_ephtag :: bytes
  enc_nonce :: bytes
  enc_tag :: bytes
  enc_ident :: string

record oldencmsg =
  old_encalg :: bytes
  old_secrandomid :: bytes
  old_pubrandomid :: bytes
  old_nonce :: bytes
  old_tag :: bytes

record oldekcmsg =
  ekc_ekcalg :: bytes
  ekc_pubrandomid :: bytes
  ekc_pubkey :: bytes
  ekc_nonce :: bytes
  ekc_tag :: bytes

text \<open>The array sizes of the struct declarations.\<close>

definition wf_seckey :: "reop_seckey \<Rightarrow> bool" where
  "wf_seckey k =
     (length (sk_sigalg k) = 2 \<and> length (sk_encalg k) = 2 \<and> length (sk_symalg k) = 2
      \<and> length (sk_kdfalg k) = 2 \<and> length (sk_randomid k) = RANDOMIDLEN
      \<and> length (sk_kdfrounds k) = 4 \<and> length (sk_salt k) = 16
      \<and> length (sk_nonce k) = SYMNONCEBYTES \<and> length (sk_tag k) = SYMTAGBYTES
      \<and> length (sk_sigkey k) = SIGSECRETBYTES \<and> length (sk_enckey k) = ENCSECRETBYTES
      \<and> length (sk_ident k) < IDENTLEN \<and> CHR 0x00 \<notin> set (sk_ident k))"

definition wf_pubkey :: "reop_pubkey \<Rightarrow> bool" where
  "wf_pubkey k =
     (length (pk_sigalg k) = 2 \<and> length (pk_encalg k) = 2
      \<and> length (pk_randomid k) = RANDOMIDLEN
      \<and> length (pk_sigkey k) = SIGPUBLICBYTES \<and> length (pk_enckey k) = ENCPUBLICBYTES
      \<and> length (pk_ident k) < IDENTLEN \<and> CHR 0x00 \<notin> set (pk_ident k))"

definition wf_sig :: "reop_sig \<Rightarrow> bool" where
  "wf_sig s =
     (length (sig_sigalg s) = 2 \<and> length (sig_randomid s) = RANDOMIDLEN
      \<and> length (sig_sig s) = SIGBYTES
      \<and> length (sig_ident s) < IDENTLEN \<and> CHR 0x00 \<notin> set (sig_ident s))"

section \<open>The cryptographic library and the process environment\<close>

text \<open>libsodium and \<open>bcrypt_pbkdf\<close> are linked in, not part of reop.c: the model takes them
  as a record of functions. A box returns the ciphertext and its detached tag; opening
  returns the plaintext, or \<open>None\<close> where the library returns -1. Key pairs are computed
  from 32 bytes drawn from the random source.\<close>

record prims =
  secretbox_detached :: "bytes \<Rightarrow> bytes \<Rightarrow> bytes \<Rightarrow> bytes \<times> bytes"
  secretbox_open_detached :: "bytes \<Rightarrow> bytes \<Rightarrow> bytes \<Rightarrow> bytes \<Rightarrow> bytes option"
  box_detached :: "bytes \<Rightarrow> bytes \<Rightarrow> bytes \<Rightarrow> bytes \<Rightarrow> bytes \<times> bytes"
  box_open_detached :: "bytes \<Rightarrow> bytes \<Rightarrow> bytes \<Rightarrow> bytes \<Rightarrow> bytes \<Rightarrow> bytes option"
  sign_detached :: "bytes \<Rightarrow> bytes \<Rightarrow> bytes"
  sign_verify_detached :: "bytes \<Rightarrow> bytes \<Rightarrow> bytes \<Rightarrow> bool"
  sign_seed_keypair :: "bytes \<Rightarrow> bytes \<times> bytes"
  box_seed_keypair :: "bytes \<Rightarrow> bytes \<times> bytes"
  bcrypt_pbkdf :: "string \<Rightarrow> bytes \<Rightarrow> nat \<Rightarrow> 32 word \<Rightarrow> bytes option"

text \<open>The random source is a tape of bytes; \<open>randombytes\<close> reads its first \<open>n\<close> bytes and
  leaves the rest.\<close>

type_synonym rand = "nat \<Rightarrow> byte"

definition randombytes :: "nat \<Rightarrow> rand \<Rightarrow> bytes \<times> rand" where
  "randombytes n r = (map r [0..<n], (\<lambda>i. r (i + n)))"

definition crypto_sign_ed25519_keypair :: "prims \<Rightarrow> rand \<Rightarrow> (bytes \<times> bytes) \<times> rand" where
  "crypto_sign_ed25519_keypair P r =
     (let (seed, r') = randombytes 32 r in (sign_seed_keypair P seed, r'))"

definition crypto_box_keypair :: "prims \<Rightarrow> rand \<Rightarrow> (bytes \<times> bytes) \<times> rand" where
  "crypto_box_keypair P r =
     (let (seed, r') = randombytes 32 r in (box_seed_keypair P seed, r'))"

text \<open>What \<open>kdf\<close> can read of the process: the variable \<open>REOP_PASSPHRASE\<close>, and the
  answers the terminal gives to successive \<open>readpassphrase\<close> calls (\<open>None\<close>: the call
  fails).\<close>

record env =
  REOP_PASSPHRASE :: "string option"
  tty :: "string option list"

text \<open>Every \<open>errx(1, ...)\<close> of the modelled functions is an error value.\<close>

datatype error =
    Unable_to_read_passphrase
  | Please_provide_a_password
  | Passwords_dont_match
  | Bcrypt_pbkdf
  | No_ident_found
  | Invalid_header
  | Invalid_b64_encoding
  | Invalid_key_data
  | B64_encode_failed
  | No_pubkey
  | No_seckey
  | Sym_decryption_failed
  | Pub_decryption_failed
  | Unsupported_key_format
  | Key_mismatch
  | Invalid_encrypted_message
  | Invalid_signature
  | Signature_verification_failed
  | Checked_against_wrong_key
  | Could_not_open
  | File_too_large
  | Could_not_read

section \<open>The nacl wrapper functions\<close>

definition symencryptraw ::
  "prims \<Rightarrow> rand \<Rightarrow> bytes \<Rightarrow> bytes \<Rightarrow> (bytes \<times> bytes \<times> bytes) \<times> rand" where
  "symencryptraw P r buf symkey =
     (let (nonce, r') = randombytes SYMNONCEBYTES r;
          (c, tag) = secretbox_detached P buf nonce symkey
      in ((c, nonce, tag), r'))"

definition symdecryptraw :: "prims \<Rightarrow> bytes \<Rightarrow> bytes \<Rightarrow> bytes \<Rightarrow> bytes \<Rightarrow> int \<times> bytes" where
  "symdecryptraw P buf nonce tag symkey =
     (case secretbox_open_detached P buf tag nonce symkey of
        None \<Rightarrow> (-1, buf)
      | Some m \<Rightarrow> (0, m))"

definition pubencryptraw ::
  "prims \<Rightarrow> rand \<Rightarrow> bytes \<Rightarrow> bytes \<Rightarrow> bytes \<Rightarrow> (bytes \<times> bytes \<times> bytes) \<times> rand" where
  "pubencryptraw P r buf pubkey seckey =
     (let (nonce, r') = randombytes ENCNONCEBYTES r;
          (c, tag) = box_detached P buf nonce pubkey seckey
      in ((c, nonce, tag), r'))"

definition pubdecryptraw ::
  "prims \<Rightarrow> bytes \<Rightarrow> bytes \<Rightarrow> bytes \<Rightarrow> bytes \<Rightarrow> bytes \<Rightarrow> int \<times> bytes" where
  "pubdecryptraw P buf nonce tag pubkey seckey =
     (case box_open_detached P buf tag nonce pubkey seckey of
        None \<Rightarrow> (-1, buf)
      | Some m \<Rightarrow> (0, m))"

definition signraw :: "prims \<Rightarrow> bytes \<Rightarrow> bytes \<Rightarrow> bytes" where
  "signraw P seckey buf = sign_detached P buf seckey"

definition verifyraw :: "prims \<Rightarrow> bytes \<Rightarrow> bytes \<Rightarrow> bytes \<Rightarrow> int" where
  "verifyraw P pubkey buf sig = (if \<not> sign_verify_detached P sig buf pubkey then -1 else 0)"

section \<open>Key derivation and the wrapping of secret keys\<close>

definition readpassphrase_tty :: "env \<Rightarrow> bool \<Rightarrow> error + string" where
  "readpassphrase_tty e confirm =
     (case tty e of
        Some p # rest \<Rightarrow>
          (let passbuf = take 1023 (cstr p) in
           if length passbuf = 0 then Inl Please_provide_a_password
           else if confirm then
             (case rest of
                Some p2 # _ \<Rightarrow>
                  if passbuf \<noteq> take 1023 (cstr p2) then Inl Passwords_dont_match
                  else Inr passbuf
              | _ \<Rightarrow> Inl Unable_to_read_passphrase)
           else Inr passbuf)
      | _ \<Rightarrow> Inl Unable_to_read_passphrase)"

definition kdf ::
  "prims \<Rightarrow> env \<Rightarrow> bytes \<Rightarrow> 32 word \<Rightarrow> string option \<Rightarrow> bool \<Rightarrow> nat \<Rightarrow> error + bytes" where
  "kdf P e salt rounds password confirm keylen =
     (if rounds = 0 then Inr (replicate keylen 0)
      else
        (case (case (case password of None \<Rightarrow> REOP_PASSPHRASE e | Some p \<Rightarrow> Some p) of
                 None \<Rightarrow> readpassphrase_tty e confirm
               | Some p \<Rightarrow> Inr (cstr p)) of
           Inl err \<Rightarrow> Inl err
         | Inr pw \<Rightarrow>
             (case bcrypt_pbkdf P pw salt keylen rounds of
                None \<Rightarrow> Inl Bcrypt_pbkdf
              | Some key \<Rightarrow> Inr key)))"

definition encryptseckey ::
  "prims \<Rightarrow> env \<Rightarrow> rand \<Rightarrow> reop_seckey \<Rightarrow> string option \<Rightarrow> error + reop_seckey \<times> rand" where
  "encryptseckey P e r seckey password =
     (let rounds = (if password \<noteq> None \<and> length (cstr (the password)) = 0 then 0 else 42);
          (salt, r1) = randombytes 16 r;
          seckey1 = seckey\<lparr>sk_salt := salt, sk_kdfrounds := htonl rounds\<rparr>
      in case kdf P e (sk_salt seckey1) rounds password True SYMKEYBYTES of
           Inl err \<Rightarrow> Inl err
         | Inr symkey \<Rightarrow>
             (let ((c, nonce, tag), r2) =
                    symencryptraw P r1 (sk_sigkey seckey1 @ sk_enckey seckey1) symkey
              in Inr (seckey1\<lparr>sk_sigkey := take SIGSECRETBYTES c,
                               sk_enckey := drop SIGSECRETBYTES c,
                               sk_nonce := nonce, sk_tag := tag\<rparr>, r2)))"

definition decryptseckey ::
  "prims \<Rightarrow> env \<Rightarrow> reop_seckey \<Rightarrow> string option \<Rightarrow> error + int \<times> reop_seckey" where
  "decryptseckey P e seckey password =
     (if memcmp (sk_kdfalg seckey) KDFALG 2 \<noteq> 0 then Inr (-2, seckey)
      else
        (let rounds = ntohl (sk_kdfrounds seckey) in
         case kdf P e (sk_salt seckey) rounds password False SYMKEYBYTES of
           Inl err \<Rightarrow> Inl err
         | Inr symkey \<Rightarrow>
             (let (rv, m) = symdecryptraw P (sk_sigkey seckey @ sk_enckey seckey)
                              (sk_nonce seckey) (sk_tag seckey) symkey;
                  seckey' = seckey\<lparr>sk_sigkey := take SIGSECRETBYTES m,
                                    sk_enckey := drop SIGSECRETBYTES m\<rparr>
              in if rv \<noteq> 0 then Inr (rv, seckey') else Inr (0, seckey'))))"

text \<open>The secret key as \<open>encryptseckey\<close> leaves it, given the symmetric key.\<close>

definition wrapped_with :: "prims \<Rightarrow> rand \<Rightarrow> reop_seckey \<Rightarrow> 32 word \<Rightarrow> bytes \<Rightarrow> reop_seckey \<times> rand" where
  "wrapped_with P r seckey rounds symkey =
     (let enc = symencryptraw P (snd (randombytes 16 r)) (sk_sigkey seckey @ sk_enckey seckey) symkey
      in (seckey\<lparr>sk_salt := fst (randombytes 16 r), sk_kdfrounds := htonl rounds,
                 sk_sigkey := take SIGSECRETBYTES (fst (fst enc)),
                 sk_enckey := drop SIGSECRETBYTES (fst (fst enc)),
                 sk_nonce := fst (snd (fst enc)), sk_tag := snd (snd (fst enc))\<rparr>, snd enc))"

section \<open>Key generation, signing and verification\<close>

definition zero_seckey :: reop_seckey where
  "zero_seckey =
     \<lparr>sk_sigalg = replicate 2 0, sk_encalg = replicate 2 0, sk_symalg = replicate 2 0,
      sk_kdfalg = replicate 2 0, sk_randomid = replicate RANDOMIDLEN 0,
      sk_kdfrounds = replicate 4 0, sk_salt = replicate 16 0,
      sk_nonce = replicate SYMNONCEBYTES 0, sk_tag = replicate SYMTAGBYTES 0,
      sk_sigkey = replicate SIGSECRETBYTES 0, sk_enckey = replicate ENCSECRETBYTES 0,
      sk_ident = []\<rparr>"

definition zero_pubkey :: reop_pubkey where
  "zero_pubkey =
     \<lparr>pk_sigalg = replicate 2 0, pk_encalg = replicate 2 0,
      pk_randomid = replicate RANDOMIDLEN 0,
      pk_sigkey = replicate SIGPUBLICBYTES 0, pk_enckey = replicate ENCPUBLICBYTES 0,
      pk_ident = []\<rparr>"

definition reop_generate ::
  "prims \<Rightarrow> rand \<Rightarrow> string \<Rightarrow> (reop_pubkey \<times> reop_seckey) \<times> rand" where
  "reop_generate P r ident =
     (let pubkey = zero_pubkey\<lparr>pk_ident := strlcpy ident IDENTLEN\<rparr>;
          seckey = zero_seckey\<lparr>sk_ident := strlcpy ident IDENTLEN\<rparr>;
          ((sigpk, sigsk), r1) = crypto_sign_ed25519_keypair P r;
          ((encpk, encsk), r2) = crypto_box_keypair P r1;
          (randomid, r3) = randombytes RANDOMIDLEN r2;
          seckey = seckey\<lparr>sk_sigkey := sigsk, sk_enckey := encsk,
                          sk_randomid := take RANDOMIDLEN randomid,
                          sk_sigalg := take 2 SIGALG, sk_encalg := take 2 ENCKEYALG,
                          sk_symalg := take 2 SYMALG, sk_kdfalg := take 2 KDFALG\<rparr>;
          pubkey = pubkey\<lparr>pk_sigkey := sigpk, pk_enckey := encpk,
                          pk_randomid := take RANDOMIDLEN randomid,
                          pk_sigalg := take 2 SIGALG, pk_encalg := take 2 ENCKEYALG\<rparr>
      in ((pubkey, seckey), r3))"

definition reop_sign :: "prims \<Rightarrow> reop_seckey \<Rightarrow> bytes \<Rightarrow> reop_sig" where
  "reop_sign P seckey msg =
     \<lparr>sig_sigalg = take 2 SIGALG,
      sig_randomid = take RANDOMIDLEN (sk_randomid seckey),
      sig_sig = signraw P (sk_sigkey seckey) msg,
      sig_ident = strlcpy (sk_ident seckey) IDENTLEN\<rparr>"

text \<open>The result types \<open>reop_verify_result\<close> and \<open>reop_decrypt_result\<close> are declared in
  \<open>reop.h\<close>, which is not part of reop.c: a struct around an enumeration, of which reop.c
  uses the constants below. The initialiser \<open>{ 0 }\<close> that the decryption functions return
  on success is \<open>REOP_D_OK\<close>, the case that the caller's \<open>switch\<close> takes as success.\<close>

datatype reop_verify_result = REOP_V_OK | REOP_V_FAIL | REOP_V_MISMATCH

definition reop_verify ::
  "prims \<Rightarrow> reop_pubkey \<Rightarrow> bytes \<Rightarrow> reop_sig \<Rightarrow> reop_verify_result" where
  "reop_verify P pubkey msg sig =
     (if memcmp (pk_randomid pubkey) (sig_randomid sig) RANDOMIDLEN \<noteq> 0 then REOP_V_MISMATCH
      else if verifyraw P (pk_sigkey pubkey) msg (sig_sig sig) = -1 then REOP_V_FAIL
      else REOP_V_OK)"

section \<open>Public-key and symmetric encryption\<close>

datatype reop_decrypt_result = REOP_D_OK | REOP_D_FAIL | REOP_D_MISMATCH | REOP_D_INVALID

definition reop_pubencrypt ::
  "prims \<Rightarrow> rand \<Rightarrow> reop_pubkey \<Rightarrow> reop_seckey \<Rightarrow> bytes \<Rightarrow> (reop_encmsg \<times> bytes) \<times> rand" where
  "reop_pubencrypt P r pubkey seckey msg =
     (let ((ephpubkey, ephseckey), r1) = crypto_box_keypair P r;
          ((msg', nonce, tag), r2) = pubencryptraw P r1 msg (pk_enckey pubkey) ephseckey;
          ((ephpubkey', ephnonce, ephtag), r3) =
             pubencryptraw P r2 ephpubkey (pk_enckey pubkey) (sk_enckey seckey)
      in ((\<lparr>enc_encalg = take 2 ENCALG,
             enc_secrandomid = take RANDOMIDLEN (sk_randomid seckey),
             enc_pubrandomid = take RANDOMIDLEN (pk_randomid pubkey),
             enc_ephpubkey = ephpubkey', enc_ephnonce = ephnonce, enc_ephtag = ephtag,
             enc_nonce = nonce, enc_tag = tag,
             enc_ident = strlcpy (sk_ident seckey) IDENTLEN\<rparr>, msg'), r3))"

definition reop_pubdecrypt ::
  "prims \<Rightarrow> reop_encmsg \<Rightarrow> reop_pubkey \<Rightarrow> reop_seckey \<Rightarrow> bytes
     \<Rightarrow> reop_decrypt_result \<times> bytes" where
  "reop_pubdecrypt P encmsg pubkey seckey msg =
     (if memcmp (enc_pubrandomid encmsg) (sk_randomid seckey) RANDOMIDLEN \<noteq> 0
         \<or> memcmp (enc_secrandomid encmsg) (pk_randomid pubkey) RANDOMIDLEN \<noteq> 0
      then (REOP_D_MISMATCH, msg)
      else if memcmp (pk_encalg pubkey) ENCKEYALG 2 \<noteq> 0 then (REOP_D_INVALID, msg)
      else if memcmp (sk_encalg seckey) ENCKEYALG 2 \<noteq> 0 then (REOP_D_INVALID, msg)
      else
        (let (rv, ephpubkey) =
               pubdecryptraw P (enc_ephpubkey encmsg)
                 (enc_ephnonce encmsg) (enc_ephtag encmsg) (pk_enckey pubkey) (sk_enckey seckey)
         in if rv \<noteq> 0 then (REOP_D_FAIL, msg)
            else
              (let (rv, msg') =
                     pubdecryptraw P msg (enc_nonce encmsg) (enc_tag encmsg)
                       ephpubkey (sk_enckey seckey)
               in if rv \<noteq> 0 then (REOP_D_FAIL, msg') else (REOP_D_OK, msg'))))"

definition reop_symdecrypt ::
  "prims \<Rightarrow> env \<Rightarrow> reop_symmsg \<Rightarrow> string option \<Rightarrow> bytes
     \<Rightarrow> error + reop_decrypt_result \<times> bytes" where
  "reop_symdecrypt P e symmsg password msg =
     (if memcmp (sym_kdfalg symmsg) KDFALG 2 \<noteq> 0 then Inr (REOP_D_INVALID, msg)
      else
        (let rounds = ntohl (sym_kdfrounds symmsg) in
         case kdf P e (sym_salt symmsg) rounds None False SYMKEYBYTES of
           Inl err \<Rightarrow> Inl err
         | Inr symkey \<Rightarrow>
             (let (rv, msg') = symdecryptraw P msg (sym_nonce symmsg) (sym_tag symmsg) symkey
              in if rv \<noteq> 0 then Inr (REOP_D_FAIL, msg') else Inr (REOP_D_OK, msg'))))"

definition reop_symencrypt ::
  "prims \<Rightarrow> env \<Rightarrow> rand \<Rightarrow> bytes \<Rightarrow> string option \<Rightarrow> error + (reop_symmsg \<times> bytes) \<times> rand" where
  "reop_symencrypt P e r msg password =
     (let rounds = 42;
          (salt, r1) = randombytes 16 r
      in case kdf P e salt rounds password True SYMKEYBYTES of
           Inl err \<Rightarrow> Inl err
         | Inr symkey \<Rightarrow>
             (let ((msg', nonce, tag), r2) = symencryptraw P r1 msg symkey
              in Inr ((\<lparr>sym_symalg = take 2 SYMALG, sym_kdfalg = take 2 KDFALG,
                         sym_kdfrounds = htonl rounds, sym_salt = salt,
                         sym_nonce = nonce, sym_tag = tag\<rparr>, msg'), r2)))"

section \<open>Decryption of a parsed envelope\<close>

text \<open>In \<open>decrypt\<close> the parsed header lies in a union of the four header structs, with
  \<open>hdrsize\<close> bytes of it filled in. The model keeps the header as those bytes and reads
  each struct off them at the struct's offsets (all members are byte arrays but
  \<open>kdfrounds\<close>, which sits at a multiple of four: there is no padding).\<close>

definition symmsgsize :: nat where "symmsgsize = 64"
definition encmsgsize :: nat where "encmsgsize = 130"
definition oldencmsgsize :: nat where "oldencmsgsize = 58"
definition oldekcmsgsize :: nat where "oldekcmsgsize = 82"

definition field :: "nat \<Rightarrow> nat \<Rightarrow> bytes \<Rightarrow> bytes" where
  "field off len hdr = take len (drop off hdr)"

definition hdr_symmsg :: "bytes \<Rightarrow> reop_symmsg" where
  "hdr_symmsg hdr =
     \<lparr>sym_symalg = field 0 2 hdr, sym_kdfalg = field 2 2 hdr, sym_kdfrounds = field 4 4 hdr,
      sym_salt = field 8 16 hdr, sym_nonce = field 24 SYMNONCEBYTES hdr,
      sym_tag = field 48 SYMTAGBYTES hdr\<rparr>"

definition hdr_encmsg :: "bytes \<Rightarrow> reop_encmsg" where
  "hdr_encmsg hdr =
     \<lparr>enc_encalg = field 0 2 hdr, enc_secrandomid = field 2 RANDOMIDLEN hdr,
      enc_pubrandomid = field 10 RANDOMIDLEN hdr, enc_ephpubkey = field 18 ENCPUBLICBYTES hdr,
      enc_ephnonce = field 50 ENCNONCEBYTES hdr, enc_ephtag = field 74 ENCTAGBYTES hdr,
      enc_nonce = field 90 ENCNONCEBYTES hdr, enc_tag = field 114 ENCTAGBYTES hdr,
      enc_ident = cstr (string_of (drop 130 hdr))\<rparr>"

definition hdr_oldencmsg :: "bytes \<Rightarrow> oldencmsg" where
  "hdr_oldencmsg hdr =
     \<lparr>old_encalg = field 0 2 hdr, old_secrandomid = field 2 RANDOMIDLEN hdr,
      old_pubrandomid = field 10 RANDOMIDLEN hdr, old_nonce = field 18 ENCNONCEBYTES hdr,
      old_tag = field 42 ENCTAGBYTES hdr\<rparr>"

definition hdr_oldekcmsg :: "bytes \<Rightarrow> oldekcmsg" where
  "hdr_oldekcmsg hdr =
     \<lparr>ekc_ekcalg = field 0 2 hdr, ekc_pubrandomid = field 2 RANDOMIDLEN hdr,
      ekc_pubkey = field 10 ENCPUBLICBYTES hdr, ekc_nonce = field 42 ENCNONCEBYTES hdr,
      ekc_tag = field 66 ENCTAGBYTES hdr\<rparr>"

definition wf_oldencmsg :: "oldencmsg \<Rightarrow> bool" where
  "wf_oldencmsg h =
     (length (old_encalg h) = 2 \<and> length (old_secrandomid h) = RANDOMIDLEN
      \<and> length (old_pubrandomid h) = RANDOMIDLEN \<and> length (old_nonce h) = ENCNONCEBYTES
      \<and> length (old_tag h) = ENCTAGBYTES)"

definition oldencmsg_bytes :: "oldencmsg \<Rightarrow> bytes" where
  "oldencmsg_bytes h =
     old_encalg h @ old_secrandomid h @ old_pubrandomid h @ old_nonce h @ old_tag h"

text \<open>\<open>decrypt\<close> from the dispatch on \<open>hdr.alg\<close> to the plaintext it writes out. The header
  bytes are \<open>hdr\<close> and \<open>hdrsize\<close> is their number; \<open>getpubkey\<close> and \<open>getseckey\<close> are what
  \<open>reop_getpubkey(pubkeyfile, ident)\<close> and \<open>reop_getseckey(seckeyfile, NULL)\<close> return,
  \<open>None\<close> for a null pointer.\<close>

definition decrypt_oldenc ::
  "prims \<Rightarrow> bytes \<Rightarrow> reop_pubkey option \<Rightarrow> reop_seckey option \<Rightarrow> bytes \<Rightarrow> error + bytes" where
  "decrypt_oldenc P hdr getpubkey getseckey msg =
     (if length hdr \<noteq> oldencmsgsize then Inl Invalid_encrypted_message
      else case getpubkey of
        None \<Rightarrow> Inl No_pubkey
      | Some pubkey \<Rightarrow>
         (case getseckey of
            None \<Rightarrow> Inl No_seckey
          | Some seckey \<Rightarrow>
             (let oldencmsg = hdr_oldencmsg hdr in
              if (if memcmp (old_pubrandomid oldencmsg) (pk_randomid pubkey) RANDOMIDLEN = 0
                  then memcmp (old_secrandomid oldencmsg) (sk_randomid seckey) RANDOMIDLEN \<noteq> 0
                  else memcmp (old_pubrandomid oldencmsg) (sk_randomid seckey) RANDOMIDLEN \<noteq> 0
                     \<or> memcmp (old_pubrandomid oldencmsg) (sk_randomid seckey) RANDOMIDLEN \<noteq> 0)
              then Inl Key_mismatch
              else if memcmp (pk_encalg pubkey) ENCKEYALG 2 \<noteq> 0 then Inl Unsupported_key_format
              else if memcmp (sk_encalg seckey) ENCKEYALG 2 \<noteq> 0 then Inl Unsupported_key_format
              else
                (let (rv, msg') = pubdecryptraw P msg (old_nonce oldencmsg) (old_tag oldencmsg)
                                    (pk_enckey pubkey) (sk_enckey seckey)
                 in if rv \<noteq> 0 then Inl Pub_decryption_failed else Inr msg'))))"

definition decrypt_dispatch ::
  "prims \<Rightarrow> env \<Rightarrow> bytes \<Rightarrow> reop_pubkey option \<Rightarrow> reop_seckey option \<Rightarrow> bytes
     \<Rightarrow> error + bytes" where
  "decrypt_dispatch P e hdr getpubkey getseckey msg =
     (if memcmp (field 0 2 hdr) SYMALG 2 = 0 then
        (if length hdr \<noteq> symmsgsize then Inl Invalid_encrypted_message
         else case reop_symdecrypt P e (hdr_symmsg hdr) None msg of
                Inl err \<Rightarrow> Inl err
              | Inr (REOP_D_OK, msg') \<Rightarrow> Inr msg'
              | Inr (REOP_D_FAIL, msg') \<Rightarrow> Inl Sym_decryption_failed
              | Inr (REOP_D_INVALID, msg') \<Rightarrow> Inl Unsupported_key_format
              | Inr (REOP_D_MISMATCH, msg') \<Rightarrow> Inl Sym_decryption_failed)
      else if memcmp (field 0 2 hdr) ENCALG 2 = 0 then
        (if length hdr \<noteq> encmsgsize then Inl Invalid_encrypted_message
         else case getpubkey of
           None \<Rightarrow> Inl No_pubkey
         | Some pubkey \<Rightarrow>
            (case getseckey of
               None \<Rightarrow> Inl No_seckey
             | Some seckey \<Rightarrow>
                (case reop_pubdecrypt P (hdr_encmsg hdr) pubkey seckey msg of
                   (REOP_D_OK, msg') \<Rightarrow> Inr msg'
                 | (REOP_D_FAIL, msg') \<Rightarrow> Inl Pub_decryption_failed
                 | (REOP_D_MISMATCH, msg') \<Rightarrow> Inl Key_mismatch
                 | (REOP_D_INVALID, msg') \<Rightarrow> Inl Unsupported_key_format)))
      else if memcmp (field 0 2 hdr) OLDENCALG 2 = 0 then
        decrypt_oldenc P hdr getpubkey getseckey msg
      else if memcmp (field 0 2 hdr) OLDEKCALG 2 = 0 then
        (if length hdr \<noteq> oldekcmsgsize then Inl Invalid_encrypted_message
         else case getseckey of
           None \<Rightarrow> Inl No_seckey
         | Some seckey \<Rightarrow>
            (let oldekcmsg = hdr_oldekcmsg hdr in
             if memcmp (ekc_pubrandomid oldekcmsg) (sk_randomid seckey) RANDOMIDLEN \<noteq> 0
             then Inl Key_mismatch
             else
               (let (rv, msg') = pubdecryptraw P msg (ekc_nonce oldekcmsg) (ekc_tag oldekcmsg)
                                   (ekc_pubkey oldekcmsg) (sk_enckey seckey)
                in if rv \<noteq> 0 then Inl Pub_decryption_failed else Inr msg')))
      else Inl Invalid_encrypted_message)"

text \<open>\<open>v1pubencrypt\<close> between the loading of the keys and the writing of the file: the
  header of the version 1.0 format and the message encrypted in place.\<close>

definition v1pubencrypt ::
  "prims \<Rightarrow> rand \<Rightarrow> reop_pubkey \<Rightarrow> reop_seckey \<Rightarrow> bytes \<Rightarrow> error + (oldencmsg \<times> bytes) \<times> rand" where
  "v1pubencrypt P r pubkey seckey msg =
     (if memcmp (pk_encalg pubkey) ENCKEYALG 2 \<noteq> 0 then Inl Unsupported_key_format
      else if memcmp (sk_encalg seckey) ENCKEYALG 2 \<noteq> 0 then Inl Unsupported_key_format
      else
        (let ((msg', nonce, tag), r') =
               pubencryptraw P r msg (pk_enckey pubkey) (sk_enckey seckey)
         in Inr ((\<lparr>old_encalg = take 2 OLDENCALG,
                    old_secrandomid = take RANDOMIDLEN (sk_randomid seckey),
                    old_pubrandomid = take RANDOMIDLEN (pk_randomid pubkey),
                    old_nonce = nonce, old_tag = tag\<rparr>, msg'), r')))"

section \<open>C string functions\<close>

text \<open>The functions of \<open>string.h\<close> and \<open>ctype.h\<close> that reop.c calls, on C strings (the
  characters before the first NUL). A pointer into a string is an offset from its start.\<close>

definition isspace :: "char \<Rightarrow> bool" where
  "isspace c = (c = CHR '' '' \<or> (9 \<le> (of_char c :: nat) \<and> (of_char c :: nat) \<le> 13))"

definition strlen :: "string \<Rightarrow> nat" where
  "strlen s = length (cstr s)"

text \<open>\<open>strncmp(a, b, n) == 0\<close>.\<close>

definition strncmp_eq :: "string \<Rightarrow> string \<Rightarrow> nat \<Rightarrow> bool" where
  "strncmp_eq a b n = (take n (cstr a) = take n (cstr b))"

text \<open>\<open>strchr(s, c)\<close> and \<open>strstr(s, needle)\<close>: the offset of the first occurrence, \<open>None\<close>
  for a null pointer.\<close>

fun strchr :: "string \<Rightarrow> char \<Rightarrow> nat option" where
  "strchr [] c = None"
| "strchr (x # xs) c = (if x = c then Some 0 else map_option Suc (strchr xs c))"

fun strstr :: "string \<Rightarrow> string \<Rightarrow> nat option" where
  "strstr [] needle = (if needle = [] then Some 0 else None)"
| "strstr (x # xs) needle =
     (if prefix needle (x # xs) then Some 0 else map_option Suc (strstr xs needle))"

section \<open>Base64\<close>

text \<open>Modelled from the spec: \<open>reopb64_ntop\<close> and \<open>reopb64_pton\<close> are declared in
  \<open>reopbase64.h\<close> and defined outside reop.c. The spec fixes the standard alphabet
  \<open>A-Za-z0-9+/\<close> with \<open>=\<close> padding, and has the decoder accept an encoding that line
  breaks were inserted into: three bytes become four characters, most significant six
  bits first; the decoder skips white space, and rejects every other character outside
  the alphabet, padding anywhere but at the end, and a length that is not a multiple of
  four. As in the calls of reop.c, the encoder fails when the characters and the
  closing NUL do not fit the target, and the decoder when the bytes do not.\<close>

definition b64chars :: string where
  "b64chars = ''ABCDEFGHIJKLMNOPQRSTUVWXYZabcdefghijklmnopqrstuvwxyz0123456789+/''"

definition b64char :: "nat \<Rightarrow> char" where
  "b64char i = b64chars ! i"

fun index_of :: "'a \<Rightarrow> 'a list \<Rightarrow> nat option" where
  "index_of c [] = None"
| "index_of c (x # xs) = (if x = c then Some 0 else map_option Suc (index_of c xs))"

definition b64val :: "char \<Rightarrow> nat option" where
  "b64val c = index_of c b64chars"

text \<open>Modelled from the spec: the encoder and the decoder of the standard alphabet with
  padding, on a list of bytes and on a string without white space.\<close>

fun b64enc :: "bytes \<Rightarrow> string" where
  "b64enc [] = []"
| "b64enc [a] =
     (let n = unat a * 65536
      in [b64char (n div 262144), b64char (n div 4096 mod 64), CHR ''='', CHR ''=''])"
| "b64enc [a, b] =
     (let n = unat a * 65536 + unat b * 256
      in [b64char (n div 262144), b64char (n div 4096 mod 64), b64char (n div 64 mod 64),
          CHR ''=''])"
| "b64enc (a # b # c # rest) =
     (let n = unat a * 65536 + unat b * 256 + unat c
      in [b64char (n div 262144), b64char (n div 4096 mod 64), b64char (n div 64 mod 64),
          b64char (n mod 64)] @ b64enc rest)"

fun b64dec :: "string \<Rightarrow> bytes option" where
  "b64dec [] = Some []"
| "b64dec (c0 # c1 # c2 # c3 # rest) =
     (case (b64val c0, b64val c1) of
        (Some v0, Some v1) \<Rightarrow>
          (if c3 = CHR ''='' then
             (if rest \<noteq> [] then None
              else if c2 = CHR ''='' then Some [of_nat ((v0 * 64 + v1) div 16)]
              else (case b64val c2 of
                      None \<Rightarrow> None
                    | Some v2 \<Rightarrow>
                        (let n = (v0 * 64 + v1) * 64 + v2
                         in Some [of_nat (n div 1024), of_nat (n div 4 mod 256)])))
           else
             (case (b64val c2, b64val c3, b64dec rest) of
                (Some v2, Some v3, Some bs) \<Rightarrow>
                  (let n = ((v0 * 64 + v1) * 64 + v2) * 64 + v3
                   in Some (of_nat (n div 65536) # of_nat (n div 256 mod 256)
                              # of_nat (n mod 256) # bs))
              | _ \<Rightarrow> None))
      | _ \<Rightarrow> None)"
| "b64dec _ = None"

text \<open>Modelled from the spec: \<open>reopb64_ntop\<close> and \<open>reopb64_pton\<close> with the size of the target;
  \<open>None\<close> is the result -1. The decoder reads a C string and skips its white space.\<close>

definition reopb64_ntop :: "bytes \<Rightarrow> nat \<Rightarrow> string option" where
  "reopb64_ntop src targsize =
     (if length (b64enc src) + 1 > targsize then None else Some (b64enc src))"

definition reopb64_pton :: "string \<Rightarrow> nat \<Rightarrow> bytes option" where
  "reopb64_pton src targsize =
     (case b64dec (filter (\<lambda>c. \<not> isspace c) (cstr src)) of
        None \<Rightarrow> None
      | Some bs \<Rightarrow> if length bs > targsize then None else Some bs)"

section \<open>The armored encoding of keys and signatures\<close>

text \<open>A character array of \<open>n\<close> elements holding \<open>junk\<close> (what the memory held before).\<close>

definition char_array :: "nat \<Rightarrow> string \<Rightarrow> string" where
  "char_array n junk = take n (junk @ replicate n (CHR 0x00))"

text \<open>\<open>memmove(buf + dst, buf + src, n)\<close> inside one array.\<close>

definition memmove :: "nat \<Rightarrow> nat \<Rightarrow> nat \<Rightarrow> string \<Rightarrow> string" where
  "memmove dst src n buf = take dst buf @ take n (drop src buf) @ drop (dst + n) buf"

text \<open>\<open>wraplines\<close> works in place on the array \<open>str\<close> of \<open>space\<close> characters. Its loop counts
  \<open>num\<close> down; \<open>size_t\<close> has 64 bits, so that \<open>len - 1\<close> wraps around for an empty string.\<close>

fun wraploop :: "nat \<Rightarrow> nat \<Rightarrow> string \<Rightarrow> string" where
  "wraploop 0 len str = str"
| "wraploop (Suc n) len str =
     (let num = Suc n;
          pos = 76 * num - 1;
          amt = (if len - pos < 76 then len - pos else 76);
          str1 = memmove (pos + num) pos (amt + 1) str;
          str2 = str1[pos + num := CHR ''\<newline>'']
      in wraploop n len str2)"

definition wraplines :: "string \<Rightarrow> nat \<Rightarrow> string" where
  "wraplines str space =
     (let len = strlen str;
          num = ((len + 2 ^ 64 - 1) mod 2 ^ 64) div 76
      in if len + num + 1 > space then str else wraploop num len str)"

text \<open>\<open>readident\<close>: \<open>sscanf(buf, "ident:%63s", ident)\<close> matches the literal, and its
  conversion \<open>%63s\<close> skips white space and stores the following characters up to the next
  white space, 63 at most (\<open>scanf_s\<close>); it returns 1 only when it stored at least one.
  The result is the identity and the offset in \<open>buf\<close> of the next line.\<close>

definition scanf_s :: "nat \<Rightarrow> string \<Rightarrow> string" where
  "scanf_s n s = take n (takeWhile (\<lambda>c. \<not> isspace c) (dropWhile isspace s))"

definition readident :: "string \<Rightarrow> error + string \<times> nat" where
  "readident buf =
     (let s = cstr buf in
      if \<not> prefix ''ident:'' s then Inl No_ident_found
      else
        (let ident = scanf_s 63 (drop 6 s)
         in if ident = [] then Inl No_ident_found
            else case strchr (drop 1 s) CHR ''\<newline>'' of
                   None \<Rightarrow> Inl Invalid_header
                 | Some i \<Rightarrow> Inr (ident, 1 + i + 1)))"

text \<open>\<open>parsekeydata\<close> returns the decoded bytes of the key and the identity.\<close>

definition parsekeydata :: "string \<Rightarrow> string \<Rightarrow> nat \<Rightarrow> error + bytes \<times> string" where
  "parsekeydata keydataorig keytype keylen =
     (let beginkey = ''-----BEGIN REOP '';
          endkey = ''-----END REOP '';
          keydata = cstr keydataorig
      in if \<not> strncmp_eq keydata beginkey (strlen beginkey) then Inl Invalid_key_data
         else if \<not> strncmp_eq (drop (strlen beginkey) keydata) keytype (strlen keytype)
         then Inl Invalid_key_data
         else case strstr keydata endkey of
           None \<Rightarrow> Inl Invalid_key_data
         | Some end \<Rightarrow>
            (let keydata = take end keydata in
             case strchr keydata CHR ''\<newline>'' of
               None \<Rightarrow> Inl Invalid_key_data
             | Some begin \<Rightarrow>
                (case readident (drop (begin + 1) keydata) of
                   Inl err \<Rightarrow> Inl err
                 | Inr (ident, next) \<Rightarrow>
                    (case reopb64_pton (drop (begin + 1 + next) keydata) keylen of
                       None \<Rightarrow> Inl Invalid_b64_encoding
                     | Some key \<Rightarrow>
                         if length key \<noteq> keylen then Inl Invalid_b64_encoding
                         else Inr (key, ident)))))"

text \<open>\<open>encodekey\<close>: \<open>b64junk\<close> is what the array \<open>b64\<close> holds on entry; \<open>snprintf\<close> keeps at
  most 1023 characters.\<close>

definition encodekey :: "string \<Rightarrow> string \<Rightarrow> bytes \<Rightarrow> string \<Rightarrow> error + string" where
  "encodekey b64junk info key ident =
     (case reopb64_ntop key 1024 of
        None \<Rightarrow> Inl B64_encode_failed
      | Some enc \<Rightarrow>
          (let b64 = wraplines (enc @ CHR 0x00 # drop (length enc + 1) (char_array 1024 b64junk))
                       1024
           in Inr (take 1023
                 (''-----BEGIN REOP '' @ cstr info @ ''-----'' @ [CHR ''\<newline>'']
                  @ ''ident:'' @ cstr ident @ [CHR ''\<newline>'']
                  @ cstr b64 @ [CHR ''\<newline>'']
                  @ ''-----END REOP '' @ cstr info @ ''-----'' @ [CHR ''\<newline>'']))))"

text \<open>The bytes of each struct before its \<open>ident\<close> member, and the struct read back from
  such bytes.\<close>

definition seckeysize :: nat where "seckeysize = 172"
definition sigsize :: nat where "sigsize = 74"
definition pubkeysize :: nat where "pubkeysize = 76"

definition seckey_bytes :: "reop_seckey \<Rightarrow> bytes" where
  "seckey_bytes k =
     sk_sigalg k @ sk_encalg k @ sk_symalg k @ sk_kdfalg k @ sk_randomid k @ sk_kdfrounds k
       @ sk_salt k @ sk_nonce k @ sk_tag k @ sk_sigkey k @ sk_enckey k"

definition pubkey_bytes :: "reop_pubkey \<Rightarrow> bytes" where
  "pubkey_bytes k = pk_sigalg k @ pk_encalg k @ pk_randomid k @ pk_sigkey k @ pk_enckey k"

definition sig_bytes :: "reop_sig \<Rightarrow> bytes" where
  "sig_bytes s = sig_sigalg s @ sig_randomid s @ sig_sig s"

definition bytes_seckey :: "bytes \<Rightarrow> string \<Rightarrow> reop_seckey" where
  "bytes_seckey bs ident =
     \<lparr>sk_sigalg = field 0 2 bs, sk_encalg = field 2 2 bs, sk_symalg = field 4 2 bs,
      sk_kdfalg = field 6 2 bs, sk_randomid = field 8 RANDOMIDLEN bs,
      sk_kdfrounds = field 16 4 bs, sk_salt = field 20 16 bs,
      sk_nonce = field 36 SYMNONCEBYTES bs, sk_tag = field 60 SYMTAGBYTES bs,
      sk_sigkey = field 76 SIGSECRETBYTES bs, sk_enckey = field 140 ENCSECRETBYTES bs,
      sk_ident = ident\<rparr>"

definition bytes_pubkey :: "bytes \<Rightarrow> string \<Rightarrow> reop_pubkey" where
  "bytes_pubkey bs ident =
     \<lparr>pk_sigalg = field 0 2 bs, pk_encalg = field 2 2 bs, pk_randomid = field 4 RANDOMIDLEN bs,
      pk_sigkey = field 12 SIGPUBLICBYTES bs, pk_enckey = field 44 ENCPUBLICBYTES bs,
      pk_ident = ident\<rparr>"

definition bytes_sig :: "bytes \<Rightarrow> string \<Rightarrow> reop_sig" where
  "bytes_sig bs ident =
     \<lparr>sig_sigalg = field 0 2 bs, sig_randomid = field 2 RANDOMIDLEN bs,
      sig_sig = field 10 SIGBYTES bs, sig_ident = ident\<rparr>"

definition reop_parsepubkey :: "string \<Rightarrow> error + reop_pubkey" where
  "reop_parsepubkey pubkeydata =
     (case parsekeydata pubkeydata ''PUBLIC KEY'' pubkeysize of
        Inl err \<Rightarrow> Inl err
      | Inr (key, ident) \<Rightarrow> Inr (bytes_pubkey key ident))"

definition reop_encodepubkey :: "string \<Rightarrow> reop_pubkey \<Rightarrow> error + string" where
  "reop_encodepubkey b64junk pubkey =
     encodekey b64junk ''PUBLIC KEY'' (take pubkeysize (pubkey_bytes pubkey)) (pk_ident pubkey)"

text \<open>\<open>reop_parseseckey\<close> returns a null pointer (\<open>None\<close>) when \<open>decryptseckey\<close> does not
  return 0.\<close>

definition reop_parseseckey ::
  "prims \<Rightarrow> env \<Rightarrow> string \<Rightarrow> string option \<Rightarrow> error + reop_seckey option" where
  "reop_parseseckey P e seckeydata password =
     (case parsekeydata seckeydata ''SECRET KEY'' seckeysize of
        Inl err \<Rightarrow> Inl err
      | Inr (key, ident) \<Rightarrow>
          (case decryptseckey P e (bytes_seckey key ident) password of
             Inl err \<Rightarrow> Inl err
           | Inr (rv, seckey) \<Rightarrow> if rv \<noteq> 0 then Inr None else Inr (Some seckey)))"

definition reop_encodeseckey ::
  "prims \<Rightarrow> env \<Rightarrow> rand \<Rightarrow> string \<Rightarrow> reop_seckey \<Rightarrow> string option
     \<Rightarrow> error + string \<times> rand" where
  "reop_encodeseckey P e r b64junk seckey password =
     (case encryptseckey P e r seckey password of
        Inl err \<Rightarrow> Inl err
      | Inr (copy, r') \<Rightarrow>
          (case encodekey b64junk ''SECRET KEY'' (take seckeysize (seckey_bytes copy))
                  (sk_ident seckey) of
             Inl err \<Rightarrow> Inl err
           | Inr str \<Rightarrow> Inr (str, r')))"

definition reop_parsesig :: "string \<Rightarrow> error + reop_sig" where
  "reop_parsesig sigdata =
     (case parsekeydata sigdata ''SIGNATURE'' sigsize of
        Inl err \<Rightarrow> Inl err
      | Inr (key, ident) \<Rightarrow> Inr (bytes_sig key ident))"

definition reop_encodesig :: "string \<Rightarrow> reop_sig \<Rightarrow> error + string" where
  "reop_encodesig b64junk sig =
     encodekey b64junk ''SIGNATURE'' (take sigsize (sig_bytes sig)) (sig_ident sig)"

section \<open>Reading a file\<close>

text \<open>What \<open>xopen\<close> returns for a file name is either a negative code or a descriptor, and
  behind the descriptor a file: whether \<open>fstat\<close> reports a regular file (with its size, the
  number of its bytes), and the bytes that \<open>read\<close> delivers. In the model \<open>read\<close> does not
  fail on a descriptor and delivers as many bytes as it is asked for while the file has them,
  and \<open>malloc\<close> and \<open>realloc\<close> succeed.\<close>

record opened =
  f_regular :: bool
  f_data :: string

definition maxmsgsize :: nat where
  "maxmsgsize = 2 ^ 30"

text \<open>The loop of \<open>readall\<close>: \<open>space\<close> is the room left in the buffer, \<open>msg\<close> what has been
  read and \<open>rest\<close> what the file still holds; the result is the code -2 or the bytes
  read.\<close>

function readloop :: "nat \<Rightarrow> string \<Rightarrow> string \<Rightarrow> int + string" where
  "readloop space msg rest =
     (if space = 0 \<and> length msg * 2 > maxmsgsize then Inl (-2)
      else
        (let space1 = (if space = 0 then length msg else space);
             x = min space1 (length rest)
         in if x = 0 then Inr msg
            else readloop (space1 - x) (msg @ take x rest) (drop x rest)))"
  by pat_completeness auto
termination
  by (relation "measure (\<lambda>(space, msg, rest). length rest)") auto

definition readall :: "int + opened \<Rightarrow> int + string" where
  "readall fd =
     (case fd of
        Inl rv \<Rightarrow> if rv = -1 then Inl (-1) else Inl (-3)
      | Inr f \<Rightarrow>
          if f_regular f \<and> length (f_data f) > maxmsgsize then Inl (-2)
          else readloop (if f_regular f then length (f_data f) + 1 else 64 * 1024 - 1)
                 [] (f_data f))"

definition readallorfail :: "int + opened \<Rightarrow> error + string" where
  "readallorfail fd =
     (case readall fd of
        Inr msg \<Rightarrow> Inr msg
      | Inl rv \<Rightarrow>
          if rv = -1 then Inl Could_not_open
          else if rv = -2 then Inl File_too_large
          else Inl Could_not_read)"

section \<open>Embedded signatures\<close>

text \<open>\<open>writeb64data\<close> writes the \<open>strlen(b64)\<close> characters of the string in lines of at most
  76 characters, each followed by a newline. The model returns what is written;
  \<open>writeb64data_loop\<close> is its loop on the characters that remain.\<close>

fun writeb64data_loop :: "string \<Rightarrow> string" where
  "writeb64data_loop b64 =
     (if b64 = [] then []
      else (let amt = (if length b64 > 76 then 76 else length b64)
            in take amt b64 @ [CHR ''\<newline>''] @ writeb64data_loop (drop amt b64)))"

definition writeb64data :: "string \<Rightarrow> string" where
  "writeb64data b64 = writeb64data_loop (cstr b64)"

text \<open>\<open>writesignedmsg\<close>: the contents of the file it writes. A file is a list of
  characters; the bytes of the message are written as they are.\<close>

definition writesignedmsg :: "reop_sig \<Rightarrow> string \<Rightarrow> bytes \<Rightarrow> error + string" where
  "writesignedmsg sig ident msg =
     (case reopb64_ntop (take sigsize (sig_bytes sig)) 1024 of
        None \<Rightarrow> Inl B64_encode_failed
      | Some b64 \<Rightarrow>
          Inr (''-----BEGIN REOP SIGNED MESSAGE-----'' @ [CHR ''\<newline>'']
               @ string_of msg
               @ take 1023 (''-----BEGIN REOP SIGNATURE-----'' @ [CHR ''\<newline>'']
                            @ ''ident:'' @ cstr ident @ [CHR ''\<newline>''])
               @ writeb64data b64
               @ ''-----END REOP SIGNED MESSAGE-----'' @ [CHR ''\<newline>'']))"

text \<open>The loop of \<open>verifyembedded\<close> that moves \<open>sigdata\<close> to the next occurrence of the
  signature opener while there is one; \<open>hay\<close> is the string from \<open>sigdata\<close> on and the result
  is how far \<open>sigdata\<close> has moved.\<close>

function nextsig_loop :: "string \<Rightarrow> string \<Rightarrow> nat" where
  "nextsig_loop hay beginsig =
     (if hay = [] then 0
      else case strstr (drop 1 hay) beginsig of
             None \<Rightarrow> 0
           | Some i \<Rightarrow> 1 + i + nextsig_loop (drop (1 + i) hay) beginsig)"
  by pat_completeness auto
termination
  by (relation "measure (\<lambda>(hay, beginsig). length hay)") auto

text \<open>\<open>verifyembedded\<close>: \<open>sigfile\<close> is what \<open>xopen\<close> returns for the file name, and
  \<open>getpubkey\<close> is \<open>reop_getpubkey(pubkeyfile, ident)\<close> as a function of the identity; the
  result is the message span that was verified.\<close>

definition verifyembedded ::
  "prims \<Rightarrow> (string \<Rightarrow> reop_pubkey option) \<Rightarrow> int + opened \<Rightarrow> error + bytes" where
  "verifyembedded P getpubkey sigfile =
     (let beginmsg = ''-----BEGIN REOP SIGNED MESSAGE-----'' @ [CHR ''\<newline>''];
          beginsig = ''-----BEGIN REOP SIGNATURE-----'' @ [CHR ''\<newline>'']
      in case readallorfail sigfile of
        Inl err \<Rightarrow> Inl err
      | Inr msgdata \<Rightarrow>
         if \<not> strncmp_eq msgdata beginmsg (strlen beginmsg) then Inl Invalid_signature
         else
           (let msg = drop 36 (cstr msgdata) in
            case strstr msg beginsig of
              None \<Rightarrow> Inl Invalid_signature
            | Some first \<Rightarrow>
               (let sigdata = first + nextsig_loop (drop first msg) beginsig;
                    msglen = sigdata
                in case reop_parsesig (drop sigdata msg) of
                     Inl err \<Rightarrow> Inl err
                   | Inr sig \<Rightarrow>
                      (case getpubkey (sig_ident sig) of
                         None \<Rightarrow> Inl No_pubkey
                       | Some pubkey \<Rightarrow>
                          (case reop_verify P pubkey (bytes_of (take msglen msg)) sig of
                             REOP_V_OK \<Rightarrow> Inr (bytes_of (take msglen msg))
                           | REOP_V_MISMATCH \<Rightarrow> Inl Checked_against_wrong_key
                           | REOP_V_FAIL \<Rightarrow> Inl Signature_verification_failed)))))"

section \<open>What reop.c relies on from the library\<close>

text \<open>The guarantees of libsodium and \<open>bcrypt_pbkdf\<close> that the round-trip properties need,
  for keys and nonces of the sizes reop.c passes: a box opens under the key that made it,
  its ciphertext is as long as the plaintext and its tag has the library's tag size;
  a public-key box made with one pair's secret and the other pair's public key opens with
  the opposite halves; a signature verifies under the public half of the signing pair;
  \<open>bcrypt_pbkdf\<close> succeeds on a non-empty password, a 16-byte salt and a non-zero round
  count, and returns the requested 32 bytes.\<close>

definition secretbox_contract :: "prims \<Rightarrow> bool" where
  "secretbox_contract P =
     (\<forall>m n k. length k = SYMKEYBYTES \<longrightarrow> length n = SYMNONCEBYTES \<longrightarrow>
        secretbox_open_detached P (fst (secretbox_detached P m n k))
          (snd (secretbox_detached P m n k)) n k = Some m
        \<and> length (fst (secretbox_detached P m n k)) = length m
        \<and> length (snd (secretbox_detached P m n k)) = SYMTAGBYTES)"

definition box_contract :: "prims \<Rightarrow> bool" where
  "box_contract P =
     (\<forall>m n sa sb. length sa = 32 \<longrightarrow> length sb = 32 \<longrightarrow> length n = ENCNONCEBYTES \<longrightarrow>
        box_open_detached P
          (fst (box_detached P m n (fst (box_seed_keypair P sb)) (snd (box_seed_keypair P sa))))
          (snd (box_detached P m n (fst (box_seed_keypair P sb)) (snd (box_seed_keypair P sa))))
          n (fst (box_seed_keypair P sa)) (snd (box_seed_keypair P sb)) = Some m
        \<and> length (fst (box_detached P m n (fst (box_seed_keypair P sb))
                      (snd (box_seed_keypair P sa)))) = length m
        \<and> length (snd (box_detached P m n (fst (box_seed_keypair P sb))
                      (snd (box_seed_keypair P sa)))) = ENCTAGBYTES)"

definition sign_contract :: "prims \<Rightarrow> bool" where
  "sign_contract P =
     (\<forall>m s. length s = 32 \<longrightarrow>
        sign_verify_detached P (sign_detached P m (snd (sign_seed_keypair P s))) m
          (fst (sign_seed_keypair P s)))"

text \<open>The detached signature of the library has its fixed size, whatever the key.\<close>

definition sign_size_contract :: "prims \<Rightarrow> bool" where
  "sign_size_contract P = (\<forall>m sk. length (sign_detached P m sk) = SIGBYTES)"

definition bcrypt_contract :: "prims \<Rightarrow> bool" where
  "bcrypt_contract P =
     (\<forall>pw salt rounds. pw \<noteq> [] \<longrightarrow> length salt = 16 \<longrightarrow> rounds \<noteq> 0 \<longrightarrow>
        (\<exists>k. bcrypt_pbkdf P pw salt SYMKEYBYTES rounds = Some k \<and> length k = SYMKEYBYTES))"

section \<open>An executable instance of the library interface\<close>

text \<open>A small stand-in for the library, with none of its security, on which the model can be
  run on concrete inputs: a box adds a pad byte computed from key and nonce to every
  byte and tags the result with a checksum; a public key is three times the secret
  scalar bytes, so that both sides compute the same shared value.\<close>

definition ref_pad :: "bytes \<Rightarrow> bytes \<Rightarrow> byte" where
  "ref_pad k n = sum_list k + sum_list n"

definition ref_secretbox :: "bytes \<Rightarrow> bytes \<Rightarrow> bytes \<Rightarrow> bytes \<times> bytes" where
  "ref_secretbox m n k = (map (\<lambda>b. b + ref_pad k n) m, replicate 16 (sum_list m + ref_pad k n))"

definition ref_secretbox_open :: "bytes \<Rightarrow> bytes \<Rightarrow> bytes \<Rightarrow> bytes \<Rightarrow> bytes option" where
  "ref_secretbox_open c t n k =
     (let m = map (\<lambda>b. b - ref_pad k n) c
      in if t = replicate 16 (sum_list m + ref_pad k n) then Some m else None)"

definition ref_shared :: "bytes \<Rightarrow> bytes \<Rightarrow> bytes" where
  "ref_shared pk sk = [sum_list pk * sum_list sk]"

definition ref_prims :: prims where
  "ref_prims =
     \<lparr>secretbox_detached = ref_secretbox,
      secretbox_open_detached = ref_secretbox_open,
      box_detached = (\<lambda>m n pk sk. ref_secretbox m n (ref_shared pk sk)),
      box_open_detached = (\<lambda>c t n pk sk. ref_secretbox_open c t n (ref_shared pk sk)),
      sign_detached = (\<lambda>m sk. replicate 64 (sum_list m + sum_list (drop 32 sk))),
      sign_verify_detached = (\<lambda>sg m pk. sg = replicate 64 (sum_list m + sum_list pk)),
      sign_seed_keypair = (\<lambda>s. (map (\<lambda>b. 3 * b) s, s @ map (\<lambda>b. 3 * b) s)),
      box_seed_keypair = (\<lambda>s. (map (\<lambda>b. 3 * b) s, s)),
      bcrypt_pbkdf = (\<lambda>pw salt keylen rounds.
         if pw = [] \<or> salt = [] \<or> keylen = 0 \<or> rounds = 0 then None
         else Some (replicate keylen (sum_list (bytes_of pw) + sum_list salt + ucast rounds)))\<rparr>"

text \<open>Concrete inputs: a random tape, two key pairs cut from it, and a message.\<close>

definition ex_rand :: rand where
  "ex_rand = (\<lambda>i. of_nat (7 * i + 1))"

definition ex_alice :: "reop_pubkey \<times> reop_seckey" where
  "ex_alice = fst (reop_generate ref_prims ex_rand ''alice'')"

definition ex_bob :: "reop_pubkey \<times> reop_seckey" where
  "ex_bob = fst (reop_generate ref_prims (snd (reop_generate ref_prims ex_rand ''alice'')) ''bob'')"

definition ex_msg :: bytes where
  "ex_msg = bytes_of ''hello''"

definition ex_env :: env where
  "ex_env = \<lparr>REOP_PASSPHRASE = None, tty = []\<rparr>"

text \<open>Alice's secret key wrapped with the empty passphrase.\<close>

definition ex_wrapped :: reop_seckey where
  "ex_wrapped =
     (case encryptseckey ref_prims ex_env ex_rand (snd ex_alice) (Some []) of
        Inr (k, r) \<Rightarrow> k
      | Inl err \<Rightarrow> snd ex_alice)"

text \<open>Structures with an algorithm tag other than the fixed one: alice's signature with the
  \<open>sigalg\<close> \<open>XX\<close>, a symmetric header with the \<open>kdfalg\<close> \<open>XX\<close>, and the bytes of a symmetric
  header with the \<open>symalg\<close> \<open>XX\<close> (its \<open>kdfalg\<close> is \<open>BK\<close>).\<close>

definition ex_sig_foreign_alg :: reop_sig where
  "ex_sig_foreign_alg = (reop_sign ref_prims (snd ex_alice) ex_msg)\<lparr>sig_sigalg := bytes_of ''XX''\<rparr>"

definition ex_symmsg_foreign_kdfalg :: reop_symmsg where
  "ex_symmsg_foreign_kdfalg =
     \<lparr>sym_symalg = SYMALG, sym_kdfalg = bytes_of ''XX'', sym_kdfrounds = htonl 42,
      sym_salt = replicate 16 0, sym_nonce = replicate SYMNONCEBYTES 0,
      sym_tag = replicate SYMTAGBYTES 0\<rparr>"

definition ex_symhdr_foreign_symalg :: bytes where
  "ex_symhdr_foreign_symalg =
     bytes_of ''XX'' @ KDFALG @ htonl 42 @ replicate 16 0 @ replicate SYMNONCEBYTES 0
       @ replicate SYMTAGBYTES 0"

text \<open>A version 1.0 envelope from alice to bob, and the same envelope with its
  \<open>secrandomid\<close> overwritten by zeros.\<close>

definition ex_v1_envelope :: "oldencmsg \<times> bytes" where
  "ex_v1_envelope =
     (case v1pubencrypt ref_prims ex_rand (fst ex_bob) (snd ex_alice) ex_msg of
        Inr (hc, r) \<Rightarrow> hc
      | Inl err \<Rightarrow> (\<lparr>old_encalg = [], old_secrandomid = [], old_pubrandomid = [],
                      old_nonce = [], old_tag = []\<rparr>, []))"

definition ex_v1_tampered :: oldencmsg where
  "ex_v1_tampered = (fst ex_v1_envelope)\<lparr>old_secrandomid := replicate RANDOMIDLEN 0\<rparr>"

section \<open>Auxiliary notions for the proofs\<close>

text \<open>One pass of the loop of \<open>wraplines\<close> as a list operation, and the rows that the
  remaining passes leave behind.\<close>

definition wrapstep :: "nat \<Rightarrow> nat \<Rightarrow> string \<Rightarrow> string" where
  "wrapstep n amt B =
     take (77 * n + 76) B @ CHR ''\<newline>'' # take amt (drop (76 * n + 76) B)
       @ drop (77 * n + 77 + amt) B"

definition wraprows :: "nat \<Rightarrow> string \<Rightarrow> string" where
  "wraprows k B =
     take 76 B @ concat (map (\<lambda>j. CHR ''\<newline>'' # take 76 (drop (76 * j) B)) [1..<Suc k])"

definition wrapped :: "nat \<Rightarrow> string \<Rightarrow> string" where
  "wrapped m s = wraprows m s @ CHR ''\<newline>'' # drop (76 * Suc m) s"

text \<open>The lines that \<open>writesignedmsg\<close> writes after the message, for an identity and the
  bytes of a signature struct.\<close>

definition signature_block :: "string \<Rightarrow> bytes \<Rightarrow> string" where
  "signature_block ident B =
     (''-----BEGIN REOP SIGNATURE-----'' @ [CHR ''\<newline>''])
       @ (''ident:'' @ ident) @ CHR ''\<newline>''
       # (wrapped 0 (b64enc B) @ [CHR ''\<newline>''])
       @ ''-----END REOP SIGNED MESSAGE-----'' @ CHR ''\<newline>'' # []"

section \<open>Keys with unusual identities\<close>

text \<open>Alice's public key under the identity \<open>a b\<close>, and its armored form.\<close>

definition ex_spaced_pubkey :: reop_pubkey where
  "ex_spaced_pubkey = (fst ex_alice)\<lparr>pk_ident := ''a b''\<rparr>"

definition ex_spaced_armor :: string where
  "ex_spaced_armor = (case reop_encodepubkey [] ex_spaced_pubkey of Inr s \<Rightarrow> s | Inl err \<Rightarrow> [])"

text \<open>An armored block of alice's public key with a given \<open>ident\<close> line.\<close>

definition ex_pubkey_block :: "string \<Rightarrow> string" where
  "ex_pubkey_block line =
     (''-----BEGIN REOP '' @ ''PUBLIC KEY'' @ ''-----'') @ CHR ''\<newline>''
       # (''ident:'' @ line) @ CHR ''\<newline>''
       # (wrapped 0 (b64enc (take pubkeysize (pubkey_bytes (fst ex_alice)))) @ [CHR ''\<newline>''])
       @ ''-----END REOP '' @ ''PUBLIC KEY-----'' @ [CHR ''\<newline>'']"

text \<open>Alice's secret key under the identity \<open>-----END REOP \<close>, and its armored form
  under the passphrase \<open>pw\<close>.\<close>

definition ex_marked_seckey :: reop_seckey where
  "ex_marked_seckey = (snd ex_alice)\<lparr>sk_ident := ''-----END REOP ''\<rparr>"

definition ex_marked_armor :: string where
  "ex_marked_armor =
     (case reop_encodeseckey ref_prims ex_env ex_rand [] ex_marked_seckey (Some ''pw'') of
        Inr (s, r') \<Rightarrow> s
      | Inl err \<Rightarrow> [])"

section \<open>Signed messages with an opener line and with a NUL byte\<close>

text \<open>A key ring holding alice's public key; a message that begins with a line equal to the
  signature opener; and a message whose first byte is NUL; each with its signature and the
  signed file written for it.\<close>

definition ex_keyring :: "string \<Rightarrow> reop_pubkey option" where
  "ex_keyring = [''alice'' \<mapsto> fst ex_alice]"

definition ex_decoy_msg :: bytes where
  "ex_decoy_msg = bytes_of (''-----BEGIN REOP SIGNATURE-----'' @ [CHR ''\<newline>'']
                            @ ''hello'' @ [CHR ''\<newline>''])"

definition ex_decoy_sig :: reop_sig where
  "ex_decoy_sig = reop_sign ref_prims (snd ex_alice) ex_decoy_msg"

definition ex_decoy_signed :: string where
  "ex_decoy_signed =
     (case writesignedmsg ex_decoy_sig (sig_ident ex_decoy_sig) ex_decoy_msg of
        Inr s \<Rightarrow> s
      | Inl err \<Rightarrow> [])"

definition ex_nul_msg :: bytes where
  "ex_nul_msg = 0 # ex_decoy_msg"

definition ex_nul_sig :: reop_sig where
  "ex_nul_sig = reop_sign ref_prims (snd ex_alice) ex_nul_msg"

definition ex_nul_signed :: string where
  "ex_nul_signed =
     (case writesignedmsg ex_nul_sig (sig_ident ex_nul_sig) ex_nul_msg of
        Inr s \<Rightarrow> s
      | Inl err \<Rightarrow> [])"

section \<open>Basic facts\<close>

lemma find_neq_zip_None:
  "length xs = length ys \<Longrightarrow> (find (\<lambda>(x, y). x \<noteq> y) (zip xs ys) = None) = (xs = ys)"
  by (induction xs ys rule: list_induct2) auto

lemma memcmp_eq_iff:
  assumes "n \<le> length a" and "n \<le> length b"
  shows "(memcmp a b n = 0) = (take n a = take n b)"
proof (cases "find (\<lambda>(x, y). x \<noteq> y) (zip (take n a) (take n b))")
  case None
  moreover have "length (take n a) = length (take n b)"
    using assms by simp
  ultimately show ?thesis
    using find_neq_zip_None [of "take n a" "take n b"] by (simp add: memcmp_def)
next
  case (Some p)
  obtain x y where p: "p = (x, y)" by (cases p)
  have "x \<noteq> y"
    using Some p by (auto simp: find_Some_iff)
  then have "int (unat x) \<noteq> int (unat y)"
    by (simp add: word_uint_eq_iff)
  moreover have "take n a \<noteq> take n b"
    using Some find_neq_zip_None [of "take n a" "take n b"] assms by auto
  ultimately show ?thesis
    using Some p by (simp add: memcmp_def)
qed

lemma find_neq_zip_same: "find (\<lambda>(x, y). x \<noteq> y) (zip xs xs) = None"
  by (induction xs) auto

lemma memcmp_same [simp]: "memcmp a a n = 0"
  by (simp add: memcmp_def find_neq_zip_same)

lemma memcmp_take_left [simp]: "memcmp (take n a) a n = 0"
  by (simp add: memcmp_def find_neq_zip_same)

lemma memcmp_take_right [simp]: "memcmp a (take n a) n = 0"
  by (simp add: memcmp_def find_neq_zip_same)

lemma length_randombytes [simp]: "length (fst (randombytes n r)) = n"
  by (simp add: randombytes_def)

lemma ref_secretbox_roundtrip:
  "ref_secretbox_open (fst (ref_secretbox m n k)) (snd (ref_secretbox m n k)) n k = Some m"
  by (simp add: ref_secretbox_def ref_secretbox_open_def o_def)

lemma sum_list_times3: "sum_list (map (\<lambda>b. 3 * b) xs) = 3 * sum_list (xs :: bytes)"
  by (induction xs) (simp_all add: algebra_simps)

lemma ref_shared_sym:
  "ref_shared (map (\<lambda>b. 3 * b) sb) sa = ref_shared (map (\<lambda>b. 3 * b) sa) sb"
  unfolding ref_shared_def sum_list_times3
  by (simp add: mult.commute mult.left_commute)

lemma ref_secretbox_lengths:
  "length (fst (ref_secretbox m n k)) = length m"
  "length (snd (ref_secretbox m n k)) = 16"
  by (simp_all add: ref_secretbox_def)

lemma ref_secretbox_contract: "secretbox_contract ref_prims"
  by (simp add: secretbox_contract_def ref_prims_def ref_secretbox_roundtrip
      ref_secretbox_lengths SYMTAGBYTES_def)

lemma ref_box_contract: "box_contract ref_prims"
  by (simp add: box_contract_def ref_prims_def ref_shared_sym ref_secretbox_roundtrip
      ref_secretbox_lengths ENCTAGBYTES_def)

lemma ref_sign_contract: "sign_contract ref_prims"
  by (simp add: sign_contract_def ref_prims_def)

lemma ref_bcrypt_contract: "bcrypt_contract ref_prims"
  by (auto simp: bcrypt_contract_def ref_prims_def SYMKEYBYTES_def)

lemma reop_generate_eq:
  "reop_generate P r ident =
     ((\<lparr>pk_sigalg = SIGALG, pk_encalg = ENCKEYALG,
        pk_randomid = map (\<lambda>i. r (i + 64)) [0..<8],
        pk_sigkey = fst (sign_seed_keypair P (map r [0..<32])),
        pk_enckey = fst (box_seed_keypair P (map (\<lambda>i. r (i + 32)) [0..<32])),
        pk_ident = strlcpy ident IDENTLEN\<rparr>,
       \<lparr>sk_sigalg = SIGALG, sk_encalg = ENCKEYALG, sk_symalg = SYMALG, sk_kdfalg = KDFALG,
        sk_randomid = map (\<lambda>i. r (i + 64)) [0..<8],
        sk_kdfrounds = replicate 4 0, sk_salt = replicate 16 0,
        sk_nonce = replicate SYMNONCEBYTES 0, sk_tag = replicate SYMTAGBYTES 0,
        sk_sigkey = snd (sign_seed_keypair P (map r [0..<32])),
        sk_enckey = snd (box_seed_keypair P (map (\<lambda>i. r (i + 32)) [0..<32])),
        sk_ident = strlcpy ident IDENTLEN\<rparr>), (\<lambda>i. r (i + 72)))"
  by (simp add: reop_generate_def crypto_sign_ed25519_keypair_def crypto_box_keypair_def
      randombytes_def zero_pubkey_def zero_seckey_def Let_def split_def RANDOMIDLEN_def
      SIGALG_def ENCKEYALG_def SYMALG_def KDFALG_def bytes_of_def add.commute add.left_commute)

section \<open>Signatures\<close>

lemma verify_sign_generated:
  assumes "sign_contract P"
  shows "reop_verify P (fst (fst (reop_generate P r ident))) m
           (reop_sign P (snd (fst (reop_generate P r ident))) m) = REOP_V_OK"
proof -
  have "sign_verify_detached P
          (sign_detached P m (snd (sign_seed_keypair P (map r [0..<32])))) m
          (fst (sign_seed_keypair P (map r [0..<32])))"
    using assms by (simp add: sign_contract_def)
  then show ?thesis
    by (simp add: reop_generate_eq reop_verify_def reop_sign_def verifyraw_def signraw_def)
qed

text \<open>Claim C3. For every key pair the generator produces (from any random tape and
  identity) and every message, verifying with the public key the signature that
  \<open>reop_sign\<close> makes with the secret key returns \<open>REOP_V_OK\<close>, given that the library's
  signatures verify under the matching public key.\<close>

theorem sign_verify_roundtrip:
  assumes "sign_contract P"
  shows "reop_verify P (fst (fst (reop_generate P r ident))) m
           (reop_sign P (snd (fst (reop_generate P r ident))) m) = REOP_V_OK"
  using assms by (rule verify_sign_generated)

theorem sign_verify_roundtrip_witness:
  "sign_contract ref_prims \<and>
   reop_verify ref_prims (fst ex_alice) ex_msg (reop_sign ref_prims (snd ex_alice) ex_msg) = REOP_V_OK"
  using sign_verify_roundtrip [OF ref_sign_contract, of ex_rand "''alice''" ex_msg]
  by (simp add: ex_alice_def ref_sign_contract)

text \<open>Claim C4. Detached verification returns \<open>REOP_V_MISMATCH\<close> whenever the public key's
  randomid differs from the signature's, whatever the library is (the verification
  primitive has no part in that result); when the randomids are equal the result is that
  of the library's detached verification on the public signing key, the message and the
  signature bytes: \<open>REOP_V_FAIL\<close> when it fails and \<open>REOP_V_OK\<close> otherwise.\<close>

theorem verify_result:
  assumes "wf_pubkey pub" and "wf_sig sg"
  shows "reop_verify P pub msg sg =
           (if pk_randomid pub \<noteq> sig_randomid sg then REOP_V_MISMATCH
            else if sign_verify_detached P (sig_sig sg) msg (pk_sigkey pub) then REOP_V_OK
            else REOP_V_FAIL)
         \<and> (pk_randomid pub \<noteq> sig_randomid sg \<longrightarrow>
              reop_verify P' pub msg sg = REOP_V_MISMATCH)"
proof -
  have "(memcmp (pk_randomid pub) (sig_randomid sg) RANDOMIDLEN = 0)
          = (pk_randomid pub = sig_randomid sg)"
    using assms memcmp_eq_iff [of RANDOMIDLEN "pk_randomid pub" "sig_randomid sg"]
    by (simp add: wf_pubkey_def wf_sig_def)
  then show ?thesis
    by (simp add: reop_verify_def verifyraw_def)
qed

lemma wf_ex_alice_pub: "wf_pubkey (fst ex_alice)"
  by (simp add: ex_alice_def reop_generate_eq wf_pubkey_def ref_prims_def strlcpy_def cstr_def
    SIGALG_def ENCKEYALG_def bytes_of_def RANDOMIDLEN_def SIGPUBLICBYTES_def ENCPUBLICBYTES_def IDENTLEN_def)

lemma wf_ex_bob_sig: "wf_sig (reop_sign ref_prims (snd ex_bob) ex_msg)"
  by (simp add: ex_bob_def reop_generate_eq reop_sign_def wf_sig_def ref_prims_def strlcpy_def
      cstr_def signraw_def SIGALG_def bytes_of_def RANDOMIDLEN_def SIGBYTES_def IDENTLEN_def)

lemma ex_randomids_differ:
  "pk_randomid (fst ex_alice) \<noteq> sig_randomid (reop_sign ref_prims (snd ex_bob) ex_msg)"
  by (simp add: ex_alice_def ex_bob_def reop_generate_eq reop_sign_def RANDOMIDLEN_def
      ex_rand_def) (rule exI [of _ 0], simp)

theorem verify_result_witness:
  "wf_pubkey (fst ex_alice) \<and> wf_sig (reop_sign ref_prims (snd ex_bob) ex_msg) \<and>
   reop_verify ref_prims (fst ex_alice) ex_msg (reop_sign ref_prims (snd ex_bob) ex_msg)
     = REOP_V_MISMATCH"
  using verify_result [OF wf_ex_alice_pub wf_ex_bob_sig, of ref_prims ex_msg ref_prims]
    ex_randomids_differ wf_ex_alice_pub wf_ex_bob_sig
  by simp

text \<open>Claim C10. The result of detached verification is the same whatever the identity and
  \<open>sigalg\<close> fields of the public key and of the signature are, and whatever the public
  key's \<open>encalg\<close> and encryption key are: it depends only on the two randomids, the public
  signing key, the signature bytes and the message.\<close>

theorem verify_ignores_unauthenticated_fields:
  "reop_verify P (pub\<lparr>pk_ident := i1, pk_sigalg := a1, pk_encalg := e1, pk_enckey := k1\<rparr>) msg
       (sg\<lparr>sig_ident := i2, sig_sigalg := a2\<rparr>)
     = reop_verify P pub msg sg"
  by (simp add: reop_verify_def)

section \<open>Public-key encryption\<close>

lemma box_contractD:
  assumes "box_contract P" and "length sa = 32" and "length sb = 32" and "length n = ENCNONCEBYTES"
  shows "box_open_detached P
          (fst (box_detached P m n (fst (box_seed_keypair P sb)) (snd (box_seed_keypair P sa))))
          (snd (box_detached P m n (fst (box_seed_keypair P sb)) (snd (box_seed_keypair P sa))))
          n (fst (box_seed_keypair P sa)) (snd (box_seed_keypair P sb)) = Some m"
    and "length (fst (box_detached P m n (fst (box_seed_keypair P sb))
                   (snd (box_seed_keypair P sa)))) = length m"
    and "length (snd (box_detached P m n (fst (box_seed_keypair P sb))
                   (snd (box_seed_keypair P sa)))) = ENCTAGBYTES"
  using assms unfolding box_contract_def by blast+

lemma pubencryptraw_opens:
  assumes "box_contract P" and "length sa = 32" and "length sb = 32"
  shows "pubdecryptraw P
           (fst (fst (pubencryptraw P r m (fst (box_seed_keypair P sb)) (snd (box_seed_keypair P sa)))))
           (fst (snd (fst (pubencryptraw P r m (fst (box_seed_keypair P sb)) (snd (box_seed_keypair P sa))))))
           (snd (snd (fst (pubencryptraw P r m (fst (box_seed_keypair P sb)) (snd (box_seed_keypair P sa))))))
           (fst (box_seed_keypair P sa)) (snd (box_seed_keypair P sb)) = (0, m)"
proof -
  have "length (map r [0..<ENCNONCEBYTES]) = ENCNONCEBYTES"
    by simp
  from box_contractD(1) [OF assms this, of m] show ?thesis
    by (simp add: pubencryptraw_def pubdecryptraw_def randombytes_def split_def Let_def)
qed

text \<open>Claim C2. For every two key pairs the generator produces, a sender's and a
  recipient's, and every message: the envelope and ciphertext that \<open>reop_pubencrypt\<close>
  makes from the recipient's public key and the sender's secret key are decrypted by
  \<open>reop_pubdecrypt\<close>, given the sender's public key and the recipient's secret key, to
  \<open>REOP_D_OK\<close> and exactly the message, given that a library box made for a key pair
  opens with that pair's opposite halves.\<close>

theorem pubencrypt_pubdecrypt_roundtrip:
  assumes "box_contract P"
  shows "reop_pubdecrypt P
           (fst (fst (reop_pubencrypt P re (fst (fst (reop_generate P rr identR)))
                        (snd (fst (reop_generate P rs identS))) m)))
           (fst (fst (reop_generate P rs identS)))
           (snd (fst (reop_generate P rr identR)))
           (snd (fst (reop_pubencrypt P re (fst (fst (reop_generate P rr identR)))
                        (snd (fst (reop_generate P rs identS))) m)))
         = (REOP_D_OK, m)"
  by (simp add: reop_generate_eq reop_pubencrypt_def reop_pubdecrypt_def
      crypto_box_keypair_def split_def Let_def pubencryptraw_opens [OF assms])

theorem pubencrypt_pubdecrypt_roundtrip_witness:
  "box_contract ref_prims \<and>
   reop_pubdecrypt ref_prims
     (fst (fst (reop_pubencrypt ref_prims ex_rand (fst ex_bob) (snd ex_alice) ex_msg)))
     (fst ex_alice) (snd ex_bob)
     (snd (fst (reop_pubencrypt ref_prims ex_rand (fst ex_bob) (snd ex_alice) ex_msg)))
   = (REOP_D_OK, ex_msg)"
  using pubencrypt_pubdecrypt_roundtrip [OF ref_box_contract, of ex_rand
      "snd (reop_generate ref_prims ex_rand ''alice'')" "''bob''" ex_rand "''alice''" ex_msg]
  by (simp add: ex_alice_def ex_bob_def ref_box_contract)

section \<open>The legacy envelope of version 1.0\<close>

lemma hdr_oldencmsg_bytes:
  assumes "wf_oldencmsg h"
  shows "hdr_oldencmsg (oldencmsg_bytes h) = h" and "length (oldencmsg_bytes h) = oldencmsgsize"
  using assms
  by (simp_all add: wf_oldencmsg_def hdr_oldencmsg_def oldencmsg_bytes_def field_def
      oldencmsgsize_def RANDOMIDLEN_def ENCNONCEBYTES_def ENCTAGBYTES_def)

lemma pubencryptraw_lengths:
  assumes "box_contract P" and "length sa = 32" and "length sb = 32"
  shows "length (fst (snd (fst (pubencryptraw P r m (fst (box_seed_keypair P sb)) (snd (box_seed_keypair P sa)))))) = ENCNONCEBYTES"
    and "length (snd (snd (fst (pubencryptraw P r m (fst (box_seed_keypair P sb)) (snd (box_seed_keypair P sa)))))) = ENCTAGBYTES"
    and "length (fst (fst (pubencryptraw P r m (fst (box_seed_keypair P sb)) (snd (box_seed_keypair P sa))))) = length m"
proof -
  have n: "length (map r [0..<ENCNONCEBYTES]) = ENCNONCEBYTES"
    by simp
  show "length (fst (snd (fst (pubencryptraw P r m (fst (box_seed_keypair P sb)) (snd (box_seed_keypair P sa)))))) = ENCNONCEBYTES"
    by (simp add: pubencryptraw_def randombytes_def split_def Let_def)
  from box_contractD(3) [OF assms n, of m]
  show "length (snd (snd (fst (pubencryptraw P r m (fst (box_seed_keypair P sb)) (snd (box_seed_keypair P sa)))))) = ENCTAGBYTES"
    by (simp add: pubencryptraw_def randombytes_def split_def Let_def)
  from box_contractD(2) [OF assms n, of m]
  show "length (fst (fst (pubencryptraw P r m (fst (box_seed_keypair P sb)) (snd (box_seed_keypair P sa))))) = length m"
    by (simp add: pubencryptraw_def randombytes_def split_def Let_def)
qed

lemma v1pubencrypt_generated:
  "v1pubencrypt P re (fst (fst (reop_generate P rr identR)))
       (snd (fst (reop_generate P rs identS))) m =
     (let enc = pubencryptraw P re m
                  (fst (box_seed_keypair P (map (\<lambda>i. rr (i + 32)) [0..<32])))
                  (snd (box_seed_keypair P (map (\<lambda>i. rs (i + 32)) [0..<32])))
      in Inr ((\<lparr>old_encalg = take 2 OLDENCALG,
                 old_secrandomid = map (\<lambda>i. rs (i + 64)) [0..<8],
                 old_pubrandomid = map (\<lambda>i. rr (i + 64)) [0..<8],
                 old_nonce = fst (snd (fst enc)), old_tag = snd (snd (fst enc))\<rparr>,
               fst (fst enc)), snd enc))"
  by (simp add: v1pubencrypt_def reop_generate_eq split_def Let_def RANDOMIDLEN_def)

lemma dispatch_oldenc:
  assumes "wf_oldencmsg h" and "old_encalg h = take 2 OLDENCALG"
  shows "decrypt_dispatch P e (oldencmsg_bytes h) pk sk c = decrypt_oldenc P (oldencmsg_bytes h) pk sk c"
proof -
  have "field 0 2 (oldencmsg_bytes h) = take 2 OLDENCALG"
    using assms by (simp add: field_def oldencmsg_bytes_def wf_oldencmsg_def)
  then show ?thesis
    by (simp add: decrypt_dispatch_def memcmp_def OLDENCALG_def SYMALG_def ENCALG_def bytes_of_def)
qed

lemma v1_tampered_envelope_decrypts:
  assumes P: "box_contract P" and X: "length X = RANDOMIDLEN"
    and ne: "map (\<lambda>i. rr (i + 64)) [0..<8] \<noteq> map (\<lambda>i. rs (i + 64)) [0..<8]"
    and enc: "enc = pubencryptraw P re m
                  (fst (box_seed_keypair P (map (\<lambda>i. rr (i + 32)) [0..<32])))
                  (snd (box_seed_keypair P (map (\<lambda>i. rs (i + 32)) [0..<32])))"
    and h: "h = \<lparr>old_encalg = take 2 OLDENCALG, old_secrandomid = X,
                 old_pubrandomid = map (\<lambda>i. rr (i + 64)) [0..<8],
                 old_nonce = fst (snd (fst enc)), old_tag = snd (snd (fst enc))\<rparr>"
  shows "decrypt_dispatch P e (oldencmsg_bytes h)
               (Some (fst (fst (reop_generate P rs identS))))
               (Some (snd (fst (reop_generate P rr identR)))) (fst (fst enc)) = Inr m"
proof -
  define sa where "sa = map (\<lambda>i. rs (i + 32)) [0..<32]"
  define sb where "sb = map (\<lambda>i. rr (i + 32)) [0..<32]"
  have len: "length sa = 32" "length sb = 32"
    by (simp_all add: sa_def sb_def)
  have wf: "wf_oldencmsg h"
    using X pubencryptraw_lengths(1,2) [OF P len, of re m]
    by (simp add: wf_oldencmsg_def h enc sa_def sb_def OLDENCALG_def bytes_of_def RANDOMIDLEN_def)
  have alg: "old_encalg h = take 2 OLDENCALG"
    by (simp add: h)
  have ne': "memcmp (map (\<lambda>i. rr (i + 64)) [0..<8]) (map (\<lambda>i. rs (i + 64)) [0..<8]) RANDOMIDLEN \<noteq> 0"
    using ne by (simp add: memcmp_eq_iff RANDOMIDLEN_def)
  show ?thesis
    using ne' pubencryptraw_opens [OF P len, of re m]
    unfolding dispatch_oldenc [OF wf alg] decrypt_oldenc_def hdr_oldencmsg_bytes [OF wf]
    by (simp add: reop_generate_eq h enc sa_def sb_def)
qed

lemma ex_bob_gen:
  "ex_bob = fst (reop_generate ref_prims (\<lambda>i. ex_rand (i + 72)) ''bob'')"
  by (simp add: ex_bob_def reop_generate_eq)

lemma ex_ids_differ:
  "map (\<lambda>i. ex_rand (i + 64 + 72)) [0..<8] \<noteq> map (\<lambda>i. ex_rand (i + 64)) [0..<8]"
  by (simp add: ex_rand_def) (rule exI [of _ 0], simp)

lemma ex_zero_differs:
  "replicate RANDOMIDLEN 0 \<noteq> map (\<lambda>i. ex_rand (i + 64)) [0..<8]"
  by (simp add: ex_rand_def RANDOMIDLEN_def list_eq_iff_nth_eq) (rule exI [of _ 0], simp)

text \<open>Claim C6. The legacy \<open>CS\<close> branch of \<open>decrypt\<close> does not match both randomids under
  the second assignment: its second test compares \<open>pubrandomid\<close> with the secret key's
  randomid twice and never reads \<open>secrandomid\<close>. Here the envelope's \<open>pubrandomid\<close> is
  bob's (the secret key's) and its \<open>secrandomid\<close> is zeros, which is neither alice's nor
  bob's randomid, so neither assignment matches both fields; \<open>decrypt\<close> does not stop
  with a key mismatch but decrypts and returns the plaintext.\<close>

theorem legacy_decrypt_skips_secrandomid:
  "old_pubrandomid ex_v1_tampered \<noteq> pk_randomid (fst ex_alice)
   \<and> old_secrandomid ex_v1_tampered \<noteq> pk_randomid (fst ex_alice)
   \<and> decrypt_dispatch ref_prims ex_env (oldencmsg_bytes ex_v1_tampered)
        (Some (fst ex_alice)) (Some (snd ex_bob)) (snd ex_v1_envelope) = Inr ex_msg"
proof -
  define enc where "enc = pubencryptraw ref_prims ex_rand ex_msg
     (fst (box_seed_keypair ref_prims (map (\<lambda>i. ex_rand (i + 32 + 72)) [0..<32])))
     (snd (box_seed_keypair ref_prims (map (\<lambda>i. ex_rand (i + 32)) [0..<32])))"
  define h where "h = \<lparr>old_encalg = take 2 OLDENCALG, old_secrandomid = replicate RANDOMIDLEN 0,
                 old_pubrandomid = map (\<lambda>i. ex_rand (i + 64 + 72)) [0..<8],
                 old_nonce = fst (snd (fst enc)), old_tag = snd (snd (fst enc))\<rparr>"
  have env: "ex_v1_envelope = (h\<lparr>old_secrandomid := map (\<lambda>i. ex_rand (i + 64)) [0..<8]\<rparr>, fst (fst enc))"
    unfolding ex_v1_envelope_def ex_bob_gen ex_alice_def v1pubencrypt_generated
    by (simp add: Let_def h_def enc_def)
  have tam: "ex_v1_tampered = h"
    by (simp add: ex_v1_tampered_def env h_def)
  have "decrypt_dispatch ref_prims ex_env (oldencmsg_bytes h)
        (Some (fst ex_alice)) (Some (snd ex_bob)) (fst (fst enc)) = Inr ex_msg"
    unfolding ex_bob_gen ex_alice_def
    by (rule v1_tampered_envelope_decrypts [OF ref_box_contract _ ex_ids_differ enc_def h_def])
       simp
  moreover have "old_pubrandomid h \<noteq> pk_randomid (fst ex_alice)"
    using ex_ids_differ by (simp add: h_def ex_alice_def reop_generate_eq)
  moreover have "old_secrandomid h \<noteq> pk_randomid (fst ex_alice)"
    using ex_zero_differs by (simp add: h_def ex_alice_def reop_generate_eq)
  ultimately show ?thesis
    by (simp add: tam env)
qed

section \<open>Secret keys wrapped with the empty passphrase\<close>

lemma ntohl_htonl_0 [simp]: "ntohl (htonl 0) = 0"
  by (simp add: ntohl_def htonl_def)

lemma cstr_Nil [simp]: "cstr [] = []"
  by (simp add: cstr_def)

lemma secretbox_contractD:
  assumes "secretbox_contract P" and "length k = SYMKEYBYTES" and "length n = SYMNONCEBYTES"
  shows "secretbox_open_detached P (fst (secretbox_detached P m n k))
          (snd (secretbox_detached P m n k)) n k = Some m"
    and "length (fst (secretbox_detached P m n k)) = length m"
    and "length (snd (secretbox_detached P m n k)) = SYMTAGBYTES"
  using assms unfolding secretbox_contract_def by blast+

lemma symencryptraw_opens:
  assumes "secretbox_contract P" and "length k = SYMKEYBYTES"
  shows "symdecryptraw P (fst (fst (symencryptraw P r m k)))
           (fst (snd (fst (symencryptraw P r m k)))) (snd (snd (fst (symencryptraw P r m k)))) k
         = (0, m)"
    and "length (fst (fst (symencryptraw P r m k))) = length m"
    and "length (fst (snd (fst (symencryptraw P r m k)))) = SYMNONCEBYTES"
    and "length (snd (snd (fst (symencryptraw P r m k)))) = SYMTAGBYTES"
proof -
  have n: "length (map r [0..<SYMNONCEBYTES]) = SYMNONCEBYTES"
    by simp
  note c = secretbox_contractD [OF assms n, of m]
  show "symdecryptraw P (fst (fst (symencryptraw P r m k)))
           (fst (snd (fst (symencryptraw P r m k)))) (snd (snd (fst (symencryptraw P r m k)))) k
         = (0, m)"
    using c(1) by (simp add: symencryptraw_def symdecryptraw_def randombytes_def split_def Let_def)
  show "length (fst (fst (symencryptraw P r m k))) = length m"
    using c(2) by (simp add: symencryptraw_def randombytes_def split_def Let_def)
  show "length (fst (snd (fst (symencryptraw P r m k)))) = SYMNONCEBYTES"
    by (simp add: symencryptraw_def randombytes_def split_def Let_def)
  show "length (snd (snd (fst (symencryptraw P r m k)))) = SYMTAGBYTES"
    using c(3) by (simp add: symencryptraw_def randombytes_def split_def Let_def)
qed

lemma encryptseckey_empty:
  "encryptseckey P e r sk (Some []) = Inr (wrapped_with P r sk 0 (replicate SYMKEYBYTES 0))"
  by (simp add: encryptseckey_def kdf_def wrapped_with_def split_def Let_def)

lemma decryptseckey_wrapped:
  assumes P: "secretbox_contract P" and len: "length (sk_sigkey sk) = SIGSECRETBYTES"
    and alg: "sk_kdfalg sk = KDFALG" and k: "length symkey = SYMKEYBYTES"
    and kdf: "kdf P e' (fst (randombytes 16 r)) rounds pw False SYMKEYBYTES = Inr symkey"
    and rt: "ntohl (htonl rounds) = rounds"
  shows "decryptseckey P e' (fst (wrapped_with P r sk rounds symkey)) pw =
           Inr (0, (fst (wrapped_with P r sk rounds symkey))
                     \<lparr>sk_sigkey := sk_sigkey sk, sk_enckey := sk_enckey sk\<rparr>)"
  using symencryptraw_opens(1) [OF P k, of "snd (randombytes 16 r)" "sk_sigkey sk @ sk_enckey sk"]
    len alg kdf rt
  by (simp add: decryptseckey_def wrapped_with_def Let_def split_def)

text \<open>Claim C1, as amended. For every secret key (with the \<open>BK\<close> tag it is generated
  with), wrapping it with the empty passphrase succeeds and stores \<open>kdfrounds\<close> 0; on
  load the derived key is then 32 zero bytes for every passphrase, given or not, since
  \<open>kdf\<close> returns before it looks at the passphrase; so \<open>decryptseckey\<close> returns 0 and
  the plaintext signing and encryption keys under the empty passphrase and under every
  other passphrase alike. The box is still made and opened by the library.\<close>

theorem zero_round_key_opens_under_any_passphrase:
  assumes "secretbox_contract P" and "wf_seckey sk" and "sk_kdfalg sk = KDFALG"
  shows "\<exists>sk' r'. encryptseckey P e r sk (Some []) = Inr (sk', r')
           \<and> sk_kdfrounds sk' = htonl 0
           \<and> kdf P e' (sk_salt sk') (ntohl (sk_kdfrounds sk')) pw False SYMKEYBYTES
               = Inr (replicate SYMKEYBYTES 0)
           \<and> decryptseckey P e' sk' pw
               = Inr (0, sk'\<lparr>sk_sigkey := sk_sigkey sk, sk_enckey := sk_enckey sk\<rparr>)"
proof -
  have len: "length (sk_sigkey sk) = SIGSECRETBYTES"
    using assms(2) by (simp add: wf_seckey_def)
  have kdf: "kdf P e' (fst (randombytes 16 r)) 0 pw False SYMKEYBYTES = Inr (replicate SYMKEYBYTES 0)"
    by (simp add: kdf_def)
  have "decryptseckey P e' (fst (wrapped_with P r sk 0 (replicate SYMKEYBYTES 0))) pw =
           Inr (0, (fst (wrapped_with P r sk 0 (replicate SYMKEYBYTES 0)))
                     \<lparr>sk_sigkey := sk_sigkey sk, sk_enckey := sk_enckey sk\<rparr>)"
    by (rule decryptseckey_wrapped [OF assms(1) len assms(3) _ kdf]) simp_all
  moreover have "sk_kdfrounds (fst (wrapped_with P r sk 0 (replicate SYMKEYBYTES 0))) = htonl 0"
    "sk_salt (fst (wrapped_with P r sk 0 (replicate SYMKEYBYTES 0))) = fst (randombytes 16 r)"
    by (simp_all add: wrapped_with_def Let_def)
  ultimately show ?thesis
    using kdf
    by (intro exI [of _ "fst (wrapped_with P r sk 0 (replicate SYMKEYBYTES 0))"]
        exI [of _ "snd (wrapped_with P r sk 0 (replicate SYMKEYBYTES 0))"])
      (simp add: encryptseckey_empty)
qed

lemma wf_ex_alice_sec: "wf_seckey (snd ex_alice)"
  by (simp add: ex_alice_def reop_generate_eq wf_seckey_def ref_prims_def strlcpy_def cstr_def
      SIGALG_def ENCKEYALG_def SYMALG_def KDFALG_def bytes_of_def RANDOMIDLEN_def
      SIGSECRETBYTES_def ENCSECRETBYTES_def IDENTLEN_def SYMNONCEBYTES_def SYMTAGBYTES_def)

lemma ex_alice_kdfalg: "sk_kdfalg (snd ex_alice) = KDFALG"
  by (simp add: ex_alice_def reop_generate_eq)

theorem zero_round_key_opens_under_any_passphrase_witness:
  "secretbox_contract ref_prims \<and> wf_seckey (snd ex_alice) \<and> sk_kdfalg (snd ex_alice) = KDFALG
   \<and> decryptseckey ref_prims ex_env ex_wrapped (Some '''')
       = Inr (0, ex_wrapped\<lparr>sk_sigkey := sk_sigkey (snd ex_alice),
                            sk_enckey := sk_enckey (snd ex_alice)\<rparr>)"
  using zero_round_key_opens_under_any_passphrase [OF ref_secretbox_contract wf_ex_alice_sec
      ex_alice_kdfalg, of ex_env ex_rand ex_env "Some ''''"]
    ref_secretbox_contract wf_ex_alice_sec ex_alice_kdfalg
  by (auto simp: ex_wrapped_def)

text \<open>The claim as stated fails: alice's key wrapped with the empty passphrase is
  decrypted with the passphrase \<open>wrong\<close>, with result 0 instead of an authentication
  failure.\<close>

theorem zero_round_key_opens_under_wrong_passphrase:
  "decryptseckey ref_prims ex_env ex_wrapped (Some ''wrong'')
     = Inr (0, ex_wrapped\<lparr>sk_sigkey := sk_sigkey (snd ex_alice),
                          sk_enckey := sk_enckey (snd ex_alice)\<rparr>)"
proof -
  have len: "length (sk_sigkey (snd ex_alice)) = SIGSECRETBYTES"
    using wf_ex_alice_sec by (simp add: wf_seckey_def)
  have kdf: "kdf ref_prims ex_env (fst (randombytes 16 ex_rand)) 0 (Some ''wrong'') False SYMKEYBYTES
               = Inr (replicate SYMKEYBYTES 0)"
    by (simp add: kdf_def)
  have w: "ex_wrapped = fst (wrapped_with ref_prims ex_rand (snd ex_alice) 0 (replicate SYMKEYBYTES 0))"
    by (simp add: ex_wrapped_def encryptseckey_empty split_def)
  show ?thesis
    unfolding w
    by (rule decryptseckey_wrapped [OF ref_secretbox_contract len ex_alice_kdfalg _ kdf]) simp_all
qed

section \<open>Algorithm tags\<close>

lemma memcmp_alg_ne:
  assumes "length a = 2" and "a \<noteq> c" and "length c = 2"
  shows "memcmp a c 2 \<noteq> 0"
  using assms by (simp add: memcmp_eq_iff)

lemma alg_lengths [simp]:
  "length SIGALG = 2" "length ENCALG = 2" "length OLDENCALG = 2" "length ENCKEYALG = 2"
  "length OLDEKCALG = 2" "length SYMALG = 2" "length KDFALG = 2"
  by (simp_all add: SIGALG_def ENCALG_def OLDENCALG_def ENCKEYALG_def OLDEKCALG_def SYMALG_def
      KDFALG_def bytes_of_def)

lemma ex_foreign_alg: "length (bytes_of ''XX'') = 2" "bytes_of ''XX'' \<noteq> KDFALG"
  "bytes_of ''XX'' \<noteq> SIGALG" "bytes_of ''XX'' \<noteq> SYMALG"
  by (simp_all add: bytes_of_def KDFALG_def SIGALG_def SYMALG_def)



lemma reop_verify_sigalg:
  "reop_verify P pub m (sg\<lparr>sig_sigalg := a\<rparr>) = reop_verify P pub m sg"
  by (simp add: reop_verify_def)


lemma ex_foreign_hdr:
  "length ex_symhdr_foreign_symalg = symmsgsize"
  "field 0 2 ex_symhdr_foreign_symalg = bytes_of ''XX''"
  "sym_kdfalg (hdr_symmsg ex_symhdr_foreign_symalg) = KDFALG"
  by (simp_all add: ex_symhdr_foreign_symalg_def symmsgsize_def field_def bytes_of_def
      htonl_def SYMNONCEBYTES_def SYMTAGBYTES_def hdr_symmsg_def KDFALG_def)

lemma ex_foreign_encalg:
  "bytes_of ''XX'' \<noteq> ENCKEYALG"
  "length (pk_encalg (fst ex_alice)) = 2"
  using wf_ex_alice_pub by (simp_all add: bytes_of_def ENCKEYALG_def wf_pubkey_def)

lemma ex_envelope_ids:
  "memcmp (enc_pubrandomid (fst (fst (reop_pubencrypt ref_prims ex_rand (fst ex_bob) (snd ex_alice) ex_msg))))
     (sk_randomid (snd ex_bob)) RANDOMIDLEN = 0"
  "memcmp (enc_secrandomid (fst (fst (reop_pubencrypt ref_prims ex_rand (fst ex_bob) (snd ex_alice) ex_msg))))
     (pk_randomid (fst ex_alice)) RANDOMIDLEN = 0"
  by (simp_all add: reop_pubencrypt_def split_def Let_def ex_alice_def ex_bob_def
      reop_generate_eq RANDOMIDLEN_def)



section \<open>Base64: decoding inverts encoding\<close>


lemma index_of_nth: "distinct xs \<Longrightarrow> i < length xs \<Longrightarrow> index_of (xs ! i) xs = Some i"
proof (induction xs arbitrary: i)
  case Nil
  then show ?case by simp
next
  case (Cons x xs)
  show ?case
  proof (cases i)
    case 0
    then show ?thesis by simp
  next
    case (Suc j)
    with Cons have "xs ! j \<noteq> x" "index_of (xs ! j) xs = Some j"
      by auto
    with Suc show ?thesis by simp
  qed
qed

lemma distinct_b64chars: "distinct b64chars"
  by (simp add: b64chars_def)

lemma length_b64chars: "length b64chars = 64"
  by (simp add: b64chars_def)

lemma b64val_b64char: "i < 64 \<Longrightarrow> b64val (b64char i) = Some i"
  by (simp add: b64val_def b64char_def index_of_nth distinct_b64chars length_b64chars)

lemma b64char_in: "i < 64 \<Longrightarrow> b64char i \<in> set b64chars"
  by (simp add: b64char_def length_b64chars)


lemma b64_regroup: "n div (k * 64) * 64 + n div k mod 64 = (n :: nat) div k"
  by (simp add: div_mult2_eq)

lemma b64_regroup1: "n div 262144 * 64 + n div 4096 mod 64 = (n :: nat) div 4096"
  using b64_regroup [of n 4096] by simp

lemma b64_regroup2: "n div 4096 * 64 + n div 64 mod 64 = (n :: nat) div 64"
  using b64_regroup [of n 64] by simp

lemma nat_div_mod_digit:
  fixes q k z :: nat
  assumes "z < k"
  shows "(q * k + z) div k = q" and "(q * k + z) mod k = z"
  using assms by simp_all

lemma b64_split3:
  fixes x y z :: nat
  assumes "x < 256" and "y < 256" and "z < 256"
  shows "(x * 65536 + y * 256 + z) div 65536 = x"
    and "(x * 65536 + y * 256 + z) div 256 mod 256 = y"
    and "(x * 65536 + y * 256 + z) mod 256 = z"
proof -
  have r: "y * 256 + z < 65536"
    using assms by simp
  have e1: "x * 65536 + y * 256 + z = x * 65536 + (y * 256 + z)"
    by simp
  have e2: "x * 65536 + y * 256 + z = (x * 256 + y) * 256 + z"
    by simp
  show "(x * 65536 + y * 256 + z) div 65536 = x"
    unfolding e1 by (rule nat_div_mod_digit(1) [OF r])
  show "(x * 65536 + y * 256 + z) div 256 mod 256 = y"
    unfolding e2 nat_div_mod_digit(1) [OF assms(3)] by (rule nat_div_mod_digit(2) [OF assms(2)])
  show "(x * 65536 + y * 256 + z) mod 256 = z"
    unfolding e2 by (rule nat_div_mod_digit(2) [OF assms(3)])
qed

lemma b64_bytes3:
  fixes a b c :: byte
  defines "n \<equiv> unat a * 65536 + unat b * 256 + unat c"
  shows "of_nat (n div 65536) = a" "of_nat (n div 256 mod 256) = b" "of_nat (n mod 256) = c"
proof -
  have lt: "unat a < 256" "unat b < 256" "unat c < 256"
    using unsigned_less [of a] unsigned_less [of b] unsigned_less [of c] by simp_all
  show "of_nat (n div 65536) = a" "of_nat (n div 256 mod 256) = b" "of_nat (n mod 256) = c"
    unfolding n_def b64_split3 [OF lt] by simp_all
qed

lemma b64dec_group:
  assumes "b64val c0 = Some v0" and "b64val c1 = Some v1" and "b64val c2 = Some v2"
    and "b64val c3 = Some v3" and "c3 \<noteq> CHR ''=''" and "b64dec rest = Some bs"
    and "((v0 * 64 + v1) * 64 + v2) * 64 + v3 = n"
  shows "b64dec (c0 # c1 # c2 # c3 # rest)
           = Some (of_nat (n div 65536) # of_nat (n div 256 mod 256) # of_nat (n mod 256) # bs)"
  using assms by (simp add: Let_def)

lemma b64dec_pad1:
  assumes "b64val c0 = Some v0" and "b64val c1 = Some v1" and "b64val c2 = Some v2"
    and "c2 \<noteq> CHR ''=''" and "(v0 * 64 + v1) * 64 + v2 = n"
  shows "b64dec [c0, c1, c2, CHR ''='']
           = Some [of_nat (n div 1024), of_nat (n div 4 mod 256)]"
  using assms by (simp add: Let_def)

lemma b64dec_pad2:
  assumes "b64val c0 = Some v0" and "b64val c1 = Some v1" and "v0 * 64 + v1 = n"
  shows "b64dec [c0, c1, CHR ''='', CHR ''=''] = Some [of_nat (n div 16)]"
  using assms by (simp add: Let_def)

lemma b64char_not_pad: "i < 64 \<Longrightarrow> b64char i \<noteq> CHR ''=''"
  using b64char_in [of i] by (auto simp: b64chars_def)

lemma b64dec_b64enc: "b64dec (b64enc bs) = Some bs"
proof (induction bs rule: b64enc.induct)
  case 1
  then show ?case by simp
next
  case (2 a)
  define n where "n = unat a * 65536"
  have "unat a < 256"
    using unsigned_less [of a] by simp
  then have n: "n < 16777216"
    unfolding n_def by simp
  have idx: "n div 262144 < 64" "n div 4096 mod 64 < 64"
    using n by simp_all
  have "n div 4096 div 16 = unat a"
    unfolding n_def by simp
  then have "of_nat (n div 4096 div 16) = a"
    by simp
  with b64dec_pad2 [OF b64val_b64char [OF idx(1)] b64val_b64char [OF idx(2)] b64_regroup1]
  show ?case
    by (simp add: Let_def n_def [symmetric])
next
  case (3 a b)
  define n where "n = unat a * 65536 + unat b * 256"
  have lt: "unat a < 256" "unat b < 256" "(0::nat) < 256"
    using unsigned_less [of a] unsigned_less [of b] by simp_all
  have n: "n < 16777216"
    using lt unfolding n_def by simp
  have idx: "n div 262144 < 64" "n div 4096 mod 64 < 64" "n div 64 mod 64 < 64"
    using n by simp_all
  have re: "(n div 262144 * 64 + n div 4096 mod 64) * 64 + n div 64 mod 64 = n div 64"
    by (simp add: b64_regroup1 b64_regroup2)
  have "n div 64 div 1024 = n div 65536" "n div 64 div 4 = n div 256"
    by (simp_all add: div_mult2_eq [symmetric])
  moreover have "n div 65536 = unat a" "n div 256 mod 256 = unat b"
    using b64_split3(1,2) [OF lt] unfolding n_def by simp_all
  ultimately have "of_nat (n div 64 div 1024) = a" "of_nat (n div 64 div 4 mod 256) = b"
    by simp_all
  with b64dec_pad1 [OF b64val_b64char [OF idx(1)] b64val_b64char [OF idx(2)]
      b64val_b64char [OF idx(3)] b64char_not_pad [OF idx(3)] re]
  show ?case
    by (simp add: Let_def n_def [symmetric])
next
  case (4 a b c rest)
  define n where "n = unat a * 65536 + unat b * 256 + unat c"
  have lt: "unat a < 256" "unat b < 256" "unat c < 256"
    using unsigned_less [of a] unsigned_less [of b] unsigned_less [of c] by simp_all
  have n: "n < 16777216"
    using lt unfolding n_def by simp
  have idx: "n div 262144 < 64" "n div 4096 mod 64 < 64" "n div 64 mod 64 < 64" "n mod 64 < 64"
    using n by simp_all
  have re: "((n div 262144 * 64 + n div 4096 mod 64) * 64 + n div 64 mod 64) * 64 + n mod 64 = n"
    by (simp add: b64_regroup1 b64_regroup2)
  have "b64dec (b64char (n div 262144) # b64char (n div 4096 mod 64) # b64char (n div 64 mod 64)
                 # b64char (n mod 64) # b64enc rest)
          = Some (of_nat (n div 65536) # of_nat (n div 256 mod 256) # of_nat (n mod 256) # rest)"
    by (rule b64dec_group [OF b64val_b64char [OF idx(1)] b64val_b64char [OF idx(2)]
          b64val_b64char [OF idx(3)] b64val_b64char [OF idx(4)] b64char_not_pad [OF idx(4)]
          4 [OF refl] re])
  then show ?case
    using b64_bytes3 [of a b c] by (simp add: Let_def n_def [symmetric])
qed


lemma length_b64enc: "length (b64enc bs) = 4 * ((length bs + 2) div 3)"
proof (induction bs rule: b64enc.induct)
  case (4 a b c rest)
  have "(length rest + 5) div 3 = Suc ((length rest + 2) div 3)"
    by presburger
  with 4 [OF refl] show ?case
    by (simp add: Let_def add.commute)
qed (simp_all add: Let_def)

lemma set_b64enc: "set (b64enc bs) \<subseteq> set b64chars \<union> {CHR ''=''}"
proof (induction bs rule: b64enc.induct)
  case 1
  then show ?case by simp
next
  case (2 a)
  have "unat a < 256"
    using unsigned_less [of a] by simp
  then have "unat a * 65536 div 262144 < 64"
    by simp
  then show ?case
    by (simp add: Let_def b64char_in)
next
  case (3 a b)
  have "unat a < 256" "unat b < 256"
    using unsigned_less [of a] unsigned_less [of b] by simp_all
  then have "(unat a * 65536 + unat b * 256) div 262144 < 64"
    by simp
  then show ?case
    by (simp add: Let_def b64char_in)
next
  case (4 a b c rest)
  have "unat a < 256" "unat b < 256" "unat c < 256"
    using unsigned_less [of a] unsigned_less [of b] unsigned_less [of c] by simp_all
  then have "(unat a * 65536 + unat b * 256 + unat c) div 262144 < 64"
    by simp
  with 4 [OF refl] show ?case
    by (simp add: Let_def b64char_in)
qed

lemma b64_text_chars:
  assumes "c \<in> set b64chars \<union> {CHR ''=''}"
  shows "\<not> isspace c" and "c \<noteq> CHR ''-''" and "c \<noteq> CHR 0x00" and "c \<noteq> CHR ''\<newline>''"
    and "c \<noteq> CHR '' ''"
  using assms by (auto simp: b64chars_def isspace_def)

section \<open>Line wrapping\<close>


lemma wraploop_Suc:
  assumes "77 * n + 77 + amt \<le> length B"
    and "amt = (if len - (76 * n + 75) < 76 then len - (76 * n + 75) else 76)"
  shows "wraploop (Suc n) len B = wraploop n len (wrapstep n amt B)"
proof -
  define src where "src = 76 * n + 75"
  define dst where "dst = 77 * n + 76"
  have src: "src < length B" and dst: "dst \<le> length B"
    using assms(1) by (simp_all add: src_def dst_def)
  have "drop src B = B ! src # drop (Suc src) B"
    using src by (simp add: Cons_nth_drop_Suc)
  then have mv: "take (amt + 1) (drop src B) = B ! src # take amt (drop (Suc src) B)"
    by simp
  have "(memmove dst src (amt + 1) B)[dst := CHR ''\<newline>'']
          = take dst B @ CHR ''\<newline>'' # take amt (drop (Suc src) B) @ drop (dst + (amt + 1)) B"
    unfolding memmove_def mv using dst by (simp add: list_update_append)
  moreover have "Suc src = 76 * n + 76" "dst + (amt + 1) = 77 * n + 77 + amt"
    by (simp_all add: src_def dst_def)
  ultimately have step: "(memmove dst src (amt + 1) B)[dst := CHR ''\<newline>''] = wrapstep n amt B"
    by (simp only: wrapstep_def dst_def)
  have "76 * Suc n - 1 = src" "src + Suc n = dst"
    by (simp_all add: src_def dst_def)
  then have "wraploop (Suc n) len B
               = wraploop n len ((memmove dst src
                   ((if len - src < 76 then len - src else 76) + 1) B)[dst := CHR ''\<newline>''])"
    by (simp only: wraploop.simps Let_def)
  then show ?thesis
    using step by (simp only: assms(2) src_def)
qed

lemma length_wrapstep:
  "77 * n + 77 + amt \<le> length B \<Longrightarrow> length (wrapstep n amt B) = length B"
  by (simp add: wrapstep_def)

lemma wrapstep_append:
  "77 * n + 77 + amt \<le> length X \<Longrightarrow> wrapstep n amt (X @ Y) = wrapstep n amt X @ Y"
  by (simp add: wrapstep_def)

lemma wraploop_append:
  "77 * n + 76 \<le> length X \<Longrightarrow> wraploop n len (X @ Y) = wraploop n len X @ Y"
proof (induction n arbitrary: X)
  case 0
  then show ?case by simp
next
  case (Suc n)
  define amt where "amt = (if len - (76 * n + 75) < 76 then len - (76 * n + 75) else 76)"
  have amt: "amt \<le> 76"
    by (simp add: amt_def)
  have len: "77 * n + 77 + amt \<le> length X"
    using Suc.prems amt by simp
  have "wraploop (Suc n) len (X @ Y) = wraploop n len (wrapstep n amt (X @ Y))"
    using len by (intro wraploop_Suc) (simp_all add: amt_def)
  also have "\<dots> = wraploop n len (wrapstep n amt X @ Y)"
    using len by (simp add: wrapstep_append)
  also have "\<dots> = wraploop n len (wrapstep n amt X) @ Y"
    using len by (intro Suc.IH) (simp add: length_wrapstep)
  also have "wraploop n len (wrapstep n amt X) = wraploop (Suc n) len X"
    using len by (intro wraploop_Suc [symmetric]) (simp_all add: amt_def)
  finally show ?case .
qed

lemma wraprows_Suc:
  "wraprows (Suc k) B = wraprows k B @ CHR ''\<newline>'' # take 76 (drop (76 * Suc k) B)"
  by (simp add: wraprows_def)

lemma wraprows_take:
  "77 * k + 76 \<le> m \<Longrightarrow> wraprows k (take m B) = wraprows k B"
proof (induction k)
  case 0
  then show ?case by (simp add: wraprows_def)
next
  case (Suc k)
  then have "take 76 (drop (76 * Suc k) (take m B)) = take 76 (drop (76 * Suc k) B)"
    by (simp add: drop_take min_def)
  with Suc show ?case
    by (simp add: wraprows_Suc)
qed

lemma wraploop_rows:
  assumes "76 * k + 75 \<le> len" and "77 * k + 76 \<le> length B"
  shows "wraploop k len B = wraprows k B @ drop (77 * k + 76) B"
  using assms
proof (induction k arbitrary: B)
  case 0
  then show ?case by (simp add: wraprows_def)
next
  case (Suc k)
  have amt: "76 = (if len - (76 * k + 75) < 76 then len - (76 * k + 75) else 76)"
    using Suc.prems(1) by simp
  have len: "77 * k + 77 + 76 \<le> length B"
    using Suc.prems(2) by simp
  define X where "X = take (77 * k + 76) B"
  define Y where "Y = CHR ''\<newline>'' # take 76 (drop (76 * k + 76) B) @ drop (77 * k + 77 + 76) B"
  have X: "length X = 77 * k + 76"
    using len by (simp add: X_def)
  have "wraploop (Suc k) len B = wraploop k len (X @ Y)"
    using wraploop_Suc [OF len amt] by (simp only: wrapstep_def X_def Y_def)
  also have "\<dots> = wraploop k len X @ Y"
    using X by (intro wraploop_append) simp
  also have "wraploop k len X = wraprows k X @ drop (77 * k + 76) X"
    using Suc.prems(1) X by (intro Suc.IH) simp_all
  also have "\<dots> = wraprows k B"
    using X by (simp add: X_def wraprows_take)
  finally have "wraploop (Suc k) len B = wraprows k B @ Y" .
  moreover have "76 * k + 76 = 76 * Suc k" "77 * k + 77 + 76 = 77 * Suc k + 76"
    by simp_all
  ultimately show ?case
    by (simp only: wraprows_Suc Y_def append_assoc append_Cons)
qed

lemma cstr_append_nul: "CHR 0x00 \<notin> set s \<Longrightarrow> cstr (s @ CHR 0x00 # t) = s"
  by (induction s) (auto simp: cstr_def)

lemma cstr_id: "CHR 0x00 \<notin> set s \<Longrightarrow> cstr s = s"
  by (induction s) (auto simp: cstr_def)

lemma wraprows_append:
  "76 * k + 76 \<le> length X \<Longrightarrow> wraprows k (X @ Y) = wraprows k X"
proof (induction k)
  case 0
  then show ?case by (simp add: wraprows_def)
next
  case (Suc k)
  then show ?case
    by (simp add: wraprows_Suc)
qed

lemma set_wraprows: "set (wraprows k s) \<subseteq> set s \<union> {CHR ''\<newline>''}"
proof (induction k)
  case 0
  then show ?case
    using set_take_subset [of 76 s] by (auto simp: wraprows_def)
next
  case (Suc k)
  have "set (take 76 (drop (76 * Suc k) s)) \<subseteq> set s"
    using set_take_subset set_drop_subset by fast
  with Suc show ?case
    by (auto simp: wraprows_Suc)
qed

lemma filter_wraprows:
  assumes "\<forall>c\<in>set s. P c" and "\<not> P (CHR ''\<newline>'')"
  shows "filter P (wraprows k s) = take (76 * Suc k) s"
proof (induction k)
  case 0
  have "\<forall>c\<in>set (take 76 s). P c"
    using assms(1) set_take_subset [of 76 s] by blast
  then show ?case
    by (simp add: wraprows_def)
next
  case (Suc k)
  have "\<forall>c\<in>set (take 76 (drop (76 * Suc k) s)). P c"
    using assms(1) set_take_subset set_drop_subset by fast
  then have "filter P (take 76 (drop (76 * Suc k) s)) = take 76 (drop (76 * Suc k) s)"
    by simp
  moreover have "take (76 * Suc k) s @ take 76 (drop (76 * Suc k) s) = take (76 * Suc (Suc k)) s"
    using take_add [of "76 * Suc k" 76 s] by (simp add: add.commute)
  ultimately show ?case
    using Suc assms(2) by (simp add: wraprows_Suc)
qed

lemma wraplines_cstr:
  assumes nul: "CHR 0x00 \<notin> set s"
    and N: "Suc n = (length s - 1) div 76" and r: "length s - 76 * Suc n \<le> 75"
    and sp: "length s + Suc n + 1 \<le> space" "length (s @ CHR 0x00 # junk) = space" "space < 2 ^ 64"
  shows "cstr (wraplines (s @ CHR 0x00 # junk) space)
           = wraprows n s @ CHR ''\<newline>'' # drop (76 * Suc n) s"
proof -
  define B where "B = s @ CHR 0x00 # junk"
  define L where "L = length s"
  define amt where "amt = L - 76 * Suc n + 1"
  have "(length s - 1) div 76 * 76 \<le> length s - 1"
    by simp
  then have "Suc n * 76 \<le> length s - 1"
    by (simp only: N)
  then have L1: "76 * Suc n + 1 \<le> L"
    unfolding L_def by simp
  have strlen: "strlen B = L"
    using nul by (simp add: strlen_def B_def cstr_append_nul L_def)
  define M :: nat where "M = 2 ^ 64"
  have "L < M"
    using sp unfolding L_def M_def by linarith
  moreover have "L + M - 1 = (L - 1) + M"
    using L1 by linarith
  ultimately have "(L + M - 1) mod M = L - 1"
    by (simp only: mod_add_self2) simp
  then have num: "((L + 2 ^ 64 - 1) mod 2 ^ 64) div 76 = Suc n"
    using N unfolding L_def M_def by (simp only:)
  have "\<not> L + Suc n + 1 > space"
    using sp(1) unfolding L_def by linarith
  then have wl: "wraplines B space = wraploop (Suc n) L B"
    by (simp only: wraplines_def strlen num Let_def if_False)
  have amt: "amt = (if L - (76 * n + 75) < 76 then L - (76 * n + 75) else 76)"
    using L1 r unfolding amt_def L_def by auto
  have bound: "77 * n + 77 + amt \<le> length B"
    using sp L1 unfolding amt_def B_def L_def by simp
  have rows: "wraploop n L (wrapstep n amt B)
                = wraprows n (wrapstep n amt B) @ drop (77 * n + 76) (wrapstep n amt B)"
    using L1 bound by (intro wraploop_rows) (simp_all add: length_wrapstep)
  have X: "length (take (77 * n + 76) B) = 77 * n + 76"
    using bound by simp
  have "wraprows n (wrapstep n amt B) = wraprows n (take (77 * n + 76) B)"
    unfolding wrapstep_def using X by (intro wraprows_append) simp
  also have "\<dots> = wraprows n B"
    by (simp add: wraprows_take)
  also have "\<dots> = wraprows n s"
    unfolding B_def using L1 by (intro wraprows_append) (simp add: L_def)
  finally have r1: "wraprows n (wrapstep n amt B) = wraprows n s" .
  have "take amt (drop (76 * n + 76) B) = drop (76 * Suc n) s @ [CHR 0x00]"
    using L1 by (simp add: B_def amt_def L_def add.commute)
  then have r2: "drop (77 * n + 76) (wrapstep n amt B)
                   = CHR ''\<newline>'' # (drop (76 * Suc n) s @ [CHR 0x00]) @ drop (77 * n + 77 + amt) B"
    unfolding wrapstep_def using X by simp
  have eq: "wraplines B space
          = (wraprows n s @ CHR ''\<newline>'' # drop (76 * Suc n) s)
              @ CHR 0x00 # drop (77 * n + 77 + amt) B"
    unfolding wl wraploop_Suc [OF bound amt] rows r1 r2 by simp
  have "CHR 0x00 \<notin> set (wraprows n s @ CHR ''\<newline>'' # drop (76 * Suc n) s)"
    using nul set_wraprows [of n s] set_drop_subset [of "76 * Suc n" s] by auto
  then have "cstr (wraplines B space) = wraprows n s @ CHR ''\<newline>'' # drop (76 * Suc n) s"
    unfolding eq by (rule cstr_append_nul)
  then show ?thesis
    by (simp only: B_def)
qed

section \<open>Searching in C strings\<close>


lemma strchr_first: "c \<notin> set X \<Longrightarrow> strchr (X @ c # Y) c = Some (length X)"
  by (induction X) auto

lemma strchr_None: "c \<notin> set X \<Longrightarrow> strchr X c = None"
  by (induction X) auto

lemma strstr_here: "strstr (needle @ R) needle = Some 0"
proof (cases "needle @ R")
  case Nil
  then show ?thesis by simp
next
  case (Cons a list)
  have "prefix needle (needle @ R)"
    by simp
  then show ?thesis
    unfolding Cons by simp
qed

lemma strstr_None_char: "c \<in> set needle \<Longrightarrow> c \<notin> set X \<Longrightarrow> strstr X needle = None"
proof (induction X)
  case Nil
  then show ?case by auto
next
  case (Cons x X)
  have "\<not> prefix needle (x # X)"
  proof
    assume "prefix needle (x # X)"
    then have "set needle \<subseteq> set (x # X)"
      by (rule set_mono_prefix)
    with Cons.prems show False by auto
  qed
  with Cons show ?case by simp
qed

lemma strstr_skip_first:
  assumes "needle \<noteq> []" and "hd needle \<notin> set X"
  shows "strstr (X @ Y) needle = map_option (\<lambda>i. length X + i) (strstr Y needle)"
  using assms(2)
proof (induction X)
  case Nil
  then show ?case by (simp add: option.map_ident)
next
  case (Cons x X)
  have "\<not> prefix needle (x # X @ Y)"
    using assms(1) Cons.prems by (cases needle) auto
  with Cons show ?case
    by (simp add: option.map_comp o_def)
qed

lemma strstr_skip_line:
  assumes "needle \<noteq> []" and "c \<notin> set needle" and "strstr X needle = None"
  shows "strstr (X @ c # Y) needle = map_option (\<lambda>i. length X + 1 + i) (strstr Y needle)"
  using assms(3)
proof (induction X)
  case Nil
  have "\<not> prefix needle (c # Y)"
    using assms(1,2) by (cases needle) auto
  then show ?case
    by (simp add: o_def)
next
  case (Cons x X)
  from Cons.prems have np: "\<not> prefix needle (x # X)" and rest: "strstr X needle = None"
    by (auto split: if_splits)
  have "\<not> prefix needle ((x # X) @ c # Y)"
  proof
    assume "prefix needle ((x # X) @ c # Y)"
    then have "prefix needle (x # X) \<or> (\<exists>us. needle = (x # X) @ us \<and> prefix us (c # Y))"
      by (simp only: prefix_append)
    then consider "prefix needle (x # X)" | us where "needle = (x # X) @ us" "prefix us (c # Y)"
      by blast
    then show False
    proof cases
      case 1
      with np show False by simp
    next
      case 2
      then have "us \<noteq> []"
        using np by auto
      with 2 have "c \<in> set needle"
        by (cases us) auto
      with assms(2) show False by simp
    qed
  qed
  with Cons.IH [OF rest] show ?case
    by (simp add: option.map_comp o_def)
qed

section \<open>Parsing an armored block\<close>


lemma isspace_newline [simp]: "isspace (CHR ''\<newline>'')"
  by (simp add: isspace_def)

lemma reopb64_pton_wrapped:
  assumes "CHR 0x00 \<notin> set W" and "filter (\<lambda>c. \<not> isspace c) W = b64enc key"
    and "length key \<le> keylen"
  shows "reopb64_pton (W @ [CHR ''\<newline>'']) keylen = Some key"
proof -
  have "cstr (W @ [CHR ''\<newline>'']) = W @ [CHR ''\<newline>'']"
    using assms(1) by (intro cstr_id) simp
  then show ?thesis
    using assms(2,3) by (simp add: reopb64_pton_def b64dec_b64enc)
qed

lemma readident_line:
  assumes nul: "CHR 0x00 \<notin> set I" "CHR 0x00 \<notin> set R"
    and nl: "CHR ''\<newline>'' \<notin> set I"
    and tok: "tok = scanf_s 63 (I @ CHR ''\<newline>'' # R)" "tok \<noteq> []"
  shows "readident (''ident:'' @ I @ CHR ''\<newline>'' # R) = Inr (tok, length I + 7)"
proof -
  define B where "B = ''ident:'' @ I @ CHR ''\<newline>'' # R"
  have c: "cstr B = B"
    using nul by (intro cstr_id) (simp add: B_def)
  have p: "prefix ''ident:'' B" and d: "drop 6 B = I @ CHR ''\<newline>'' # R"
    by (simp_all add: B_def)
  have "drop 1 B = (''dent:'' @ I) @ CHR ''\<newline>'' # R"
    by (simp add: B_def)
  moreover have "CHR ''\<newline>'' \<notin> set (''dent:'' @ I)"
    using nl by simp
  ultimately have s: "strchr (drop 1 B) CHR ''\<newline>'' = Some (length I + 5)"
    using strchr_first [of "CHR ''\<newline>''" "''dent:'' @ I" R] by simp
  show ?thesis
    unfolding B_def [symmetric] readident_def c Let_def d s
    using p tok by simp
qed

lemma parsekeydata_block:
  assumes T: "T = (''-----BEGIN REOP '' @ keytype @ ''-----'') @ CHR ''\<newline>''
                    # (''ident:'' @ I) @ CHR ''\<newline>''
                    # (W @ [CHR ''\<newline>'']) @ ''-----END REOP '' @ rest"
    and nul: "CHR 0x00 \<notin> set keytype" "CHR 0x00 \<notin> set I" "CHR 0x00 \<notin> set W"
      "CHR 0x00 \<notin> set rest"
    and kt: "CHR ''\<newline>'' \<notin> set keytype"
      "strstr (''-----BEGIN REOP '' @ keytype @ ''-----'') ''-----END REOP '' = None"
    and I: "CHR ''\<newline>'' \<notin> set I" "strstr I ''-----END REOP '' = None"
    and W: "CHR ''-'' \<notin> set W" "filter (\<lambda>c. \<not> isspace c) W = b64enc key"
      "length key = keylen"
    and tok: "tok = scanf_s 63 (I @ CHR ''\<newline>'' # W @ [CHR ''\<newline>''])"
      "tok \<noteq> []"
  shows "parsekeydata T keytype keylen = Inr (key, tok)"
proof -
  define endkey where "endkey = ''-----END REOP ''"
  define A0 where "A0 = ''-----BEGIN REOP '' @ keytype @ ''-----''"
  define A1 where "A1 = ''ident:'' @ I"
  define W1 where "W1 = W @ [CHR ''\<newline>'']"
  define E where "E = length A0 + 1 + (length A1 + 1 + length W1)"
  have T': "T = A0 @ CHR ''\<newline>'' # A1 @ CHR ''\<newline>'' # W1 @ endkey @ rest"
    by (simp add: T A0_def A1_def W1_def endkey_def)
  have c: "cstr T = T"
    using nul by (intro cstr_id) (simp add: T)
  have ek: "endkey \<noteq> []" "CHR ''\<newline>'' \<notin> set endkey" "hd endkey = CHR ''-''"
    by (simp_all add: endkey_def)
  have b1: "strncmp_eq T ''-----BEGIN REOP '' (strlen ''-----BEGIN REOP '')"
    by (simp add: strncmp_eq_def c strlen_def cstr_def T)
  have "cstr (drop 16 T) = drop 16 T"
    using nul by (intro cstr_id) (simp add: T)
  moreover have "cstr keytype = keytype"
    using nul by (intro cstr_id)
  ultimately have b2: "strncmp_eq (drop (strlen ''-----BEGIN REOP '') T) keytype (strlen keytype)"
    by (simp add: strncmp_eq_def strlen_def T) (simp add: cstr_def)
  have n0: "strstr A0 endkey = None"
    using kt(2) by (simp add: A0_def endkey_def)
  have "strstr A1 endkey = map_option (\<lambda>i. length ''ident:'' + i) (strstr I endkey)"
    unfolding A1_def using ek by (intro strstr_skip_first) simp_all
  then have n1: "strstr A1 endkey = None"
    using I(2) by (simp add: endkey_def)
  have "strstr (W1 @ endkey @ rest) endkey
          = map_option (\<lambda>i. length W1 + i) (strstr (endkey @ rest) endkey)"
    using ek W(1) by (intro strstr_skip_first) (simp_all add: W1_def)
  then have s2: "strstr (W1 @ endkey @ rest) endkey = Some (length W1)"
    by (simp add: strstr_here)
  have s1: "strstr (A1 @ CHR ''\<newline>'' # W1 @ endkey @ rest) endkey
              = Some (length A1 + 1 + length W1)"
    using strstr_skip_line [OF ek(1,2) n1, of "W1 @ endkey @ rest"] s2 by simp
  have s0: "strstr T endkey = Some E"
    unfolding T' E_def
    using strstr_skip_line [OF ek(1,2) n0, of "A1 @ CHR ''\<newline>'' # W1 @ endkey @ rest"] s1
    by simp
  have cut: "take E T = A0 @ CHR ''\<newline>'' # A1 @ CHR ''\<newline>'' # W1"
    by (simp add: T' E_def)
  have "CHR ''\<newline>'' \<notin> set A0"
    using kt(1) by (simp add: A0_def)
  then have nlpos: "strchr (take E T) CHR ''\<newline>'' = Some (length A0)"
    unfolding cut by (rule strchr_first)
  have d1: "drop (Suc (length A0)) (take E T) = ''ident:'' @ I @ CHR ''\<newline>'' # W1"
    by (simp add: cut A1_def)
  have "CHR 0x00 \<notin> set W1"
    using nul by (simp add: W1_def)
  then have "readident (''ident:'' @ I @ CHR ''\<newline>'' # W1) = Inr (tok, length I + 7)"
    using nul(2) I(1) tok by (intro readident_line) (simp_all add: W1_def)
  then have ri: "readident (drop (Suc (length A0)) (take E T)) = Inr (tok, length I + 7)"
    by (simp only: d1)
  define X where "X = A0 @ CHR ''\<newline>'' # ''ident:'' @ I @ [CHR ''\<newline>'']"
  have "take E T = X @ W1" and "length X = length A0 + 1 + (length I + 7)"
    by (simp_all add: cut A1_def X_def)
  then have "drop (length A0 + 1 + (length I + 7)) (take E T) = W1"
    by (metis append_eq_conv_conj)
  moreover have "length A0 + 1 + (length I + 7) = 8 + (length A0 + length I)"
    by simp
  ultimately have d2: "drop (8 + (length A0 + length I)) (take E T) = W1"
    by (simp only:)
  have pt: "reopb64_pton W1 keylen = Some key"
    unfolding W1_def using nul(3) W(2,3) by (intro reopb64_pton_wrapped) simp_all
  show ?thesis
    unfolding parsekeydata_def Let_def c
    using b1 b2 W(3)
    by (simp add: s0 [unfolded endkey_def] nlpos ri d2 pt)
qed

section \<open>Encoding an armored block\<close>


lemma length_char_array [simp]: "length (char_array n junk) = n"
  by (simp add: char_array_def)

lemma b64enc_no_nul: "CHR 0x00 \<notin> set (b64enc key)"
  using set_b64enc [of key] b64_text_chars(3) by blast

lemma length_wraprows: "76 * Suc m \<le> length s \<Longrightarrow> length (wraprows m s) = 77 * m + 76"
proof (induction m)
  case 0
  then show ?case by (simp add: wraprows_def)
next
  case (Suc m)
  then show ?case by (simp add: wraprows_Suc)
qed

lemma length_wrapped:
  "76 * Suc m \<le> length s \<Longrightarrow> length (wrapped m s) = length s + Suc m"
  by (simp add: wrapped_def length_wraprows)

lemma set_wrapped: "set (wrapped m s) \<subseteq> set s \<union> {CHR ''\<newline>''}"
  using set_wraprows [of m s] set_drop_subset [of "76 * Suc m" s]
  by (auto simp: wrapped_def)

lemma filter_wrapped:
  assumes "\<forall>c\<in>set s. P c" and "\<not> P (CHR ''\<newline>'')"
  shows "filter P (wrapped m s) = s"
proof -
  have "\<forall>c\<in>set (drop (76 * Suc m) s). P c"
    using assms(1) set_drop_subset [of "76 * Suc m" s] by blast
  then show ?thesis
    using assms(2) filter_wraprows [OF assms, of m]
    by (simp add: wrapped_def)
qed

lemma encodekey_block:
  assumes len: "length (b64enc key) = L" and m: "Suc m = (L - 1) div 76"
    and r: "L - 76 * Suc m \<le> 75" and fit: "L + Suc m + 1 \<le> 1024"
    and nul: "CHR 0x00 \<notin> set info" "CHR 0x00 \<notin> set ident"
    and tot: "2 * length info + length ident + L + Suc m + 50 \<le> 1023"
  shows "encodekey junk info key ident =
           Inr ((''-----BEGIN REOP '' @ info @ ''-----'') @ CHR ''\<newline>''
                # (''ident:'' @ ident) @ CHR ''\<newline>''
                # (wrapped m (b64enc key) @ [CHR ''\<newline>''])
                @ ''-----END REOP '' @ info @ ''-----'' @ [CHR ''\<newline>''])"
proof -
  define enc where "enc = b64enc key"
  define junk' where "junk' = drop (length enc + 1) (char_array 1024 junk)"
  have L: "length enc = L"
    by (simp add: enc_def len)
  have ntop: "reopb64_ntop key 1024 = Some enc"
    using fit by (simp add: reopb64_ntop_def len enc_def)
  have sp: "length (enc @ CHR 0x00 # junk') = 1024"
    using fit by (simp add: junk'_def L)
  have big: "(1024 :: nat) < 2 ^ 64"
    by simp
  have w: "cstr (wraplines (enc @ CHR 0x00 # junk') 1024) = wrapped m enc"
    unfolding wrapped_def
    using b64enc_no_nul [of key] m r fit sp big
    by (intro wraplines_cstr) (simp_all add: enc_def len)
  have "(L - 1) div 76 * 76 \<le> L - 1"
    by simp
  then have "Suc m * 76 \<le> L - 1"
    by (simp only: m)
  then have "76 * Suc m \<le> length enc"
    by (simp add: L)
  then have lw: "length (wrapped m enc) = L + Suc m"
    by (simp only: length_wrapped L)
  show ?thesis
    unfolding encodekey_def ntop option.case Let_def junk'_def [symmetric] w
    using nul tot lw
    by (simp add: cstr_id enc_def)
qed

lemma scanf_s_nonempty:
  assumes "\<exists>c\<in>set s. \<not> isspace c" and "0 < n"
  shows "scanf_s n s \<noteq> []"
proof -
  have ne: "dropWhile isspace s \<noteq> []"
    using assms(1) by (simp add: dropWhile_eq_Nil_conv)
  then have "\<not> isspace (hd (dropWhile isspace s))"
    by (rule hd_dropWhile)
  then have "takeWhile (\<lambda>c. \<not> isspace c) (dropWhile isspace s) \<noteq> []"
    using ne by (cases "dropWhile isspace s") auto
  then show ?thesis
    using assms(2) by (simp add: scanf_s_def)
qed

lemma scanf_s_token:
  assumes "I \<noteq> []" and "\<forall>c\<in>set I. \<not> isspace c" and "length I \<le> n"
  shows "scanf_s n (I @ CHR ''\<newline>'' # R) = I"
proof -
  have "dropWhile isspace (I @ CHR ''\<newline>'' # R) = I @ CHR ''\<newline>'' # R"
    using assms(1,2) by (cases I) auto
  moreover have "takeWhile (\<lambda>c. \<not> isspace c) (I @ CHR ''\<newline>'' # R) = I"
    using assms(2) by (simp add: takeWhile_append2)
  ultimately show ?thesis
    using assms(3) by (simp add: scanf_s_def)
qed

lemma parse_encoded:
  assumes len: "length (b64enc key) = L" and m: "Suc m = (L - 1) div 76"
    and r: "L - 76 * Suc m \<le> 75" and fit: "L + Suc m + 1 \<le> 1024"
    and nul: "CHR 0x00 \<notin> set info" "CHR 0x00 \<notin> set ident"
    and tot: "2 * length info + length ident + L + Suc m + 50 \<le> 1023"
    and kt: "CHR ''\<newline>'' \<notin> set info"
      "strstr (''-----BEGIN REOP '' @ info @ ''-----'') ''-----END REOP '' = None"
    and I: "CHR ''\<newline>'' \<notin> set ident" "strstr ident ''-----END REOP '' = None"
    and key: "length key = keylen"
  shows "\<exists>s. encodekey junk info key ident = Inr s
           \<and> parsekeydata s info keylen
               = Inr (key, scanf_s 63 (ident @ CHR ''\<newline>'' # wrapped m (b64enc key)
                                        @ [CHR ''\<newline>'']))"
proof -
  define W where "W = wrapped m (b64enc key)"
  define s where "s = (''-----BEGIN REOP '' @ info @ ''-----'') @ CHR ''\<newline>''
                # (''ident:'' @ ident) @ CHR ''\<newline>''
                # (W @ [CHR ''\<newline>''])
                @ ''-----END REOP '' @ info @ ''-----'' @ [CHR ''\<newline>'']"
  have enc: "encodekey junk info key ident = Inr s"
    unfolding s_def W_def by (rule encodekey_block [OF len m r fit nul tot])
  have chars: "\<forall>c\<in>set (b64enc key). \<not> isspace c \<and> c \<noteq> CHR ''-'' \<and> c \<noteq> CHR 0x00"
    using set_b64enc [of key] b64_text_chars by blast
  have setW: "set W \<subseteq> set (b64enc key) \<union> {CHR ''\<newline>''}"
    unfolding W_def by (rule set_wrapped)
  have W1: "CHR 0x00 \<notin> set W" "CHR ''-'' \<notin> set W"
    using chars setW by auto
  have W2: "filter (\<lambda>c. \<not> isspace c) W = b64enc key"
    unfolding W_def using chars by (intro filter_wrapped) simp_all
  have "(L - 1) div 76 * 76 \<le> L - 1"
    by simp
  then have "Suc m * 76 \<le> L - 1"
    by (simp only: m)
  then have L: "76 * Suc m + 1 \<le> L"
    by simp
  then have "b64enc key \<noteq> []"
    using len by auto
  then obtain c where "c \<in> set (take 76 (b64enc key))"
    by (cases "b64enc key") auto
  then have "c \<in> set W" "\<not> isspace c"
    using chars set_take_subset [of 76 "b64enc key"]
    by (auto simp: W_def wrapped_def wraprows_def)
  then have tok: "scanf_s 63 (ident @ CHR ''\<newline>'' # W @ [CHR ''\<newline>'']) \<noteq> []"
    by (intro scanf_s_nonempty) auto
  have "parsekeydata s info keylen
          = Inr (key, scanf_s 63 (ident @ CHR ''\<newline>'' # W @ [CHR ''\<newline>'']))"
    using nul W1 kt I W2 key tok
    by (intro parsekeydata_block [OF s_def]) simp_all
  with enc show ?thesis
    unfolding W_def by blast
qed

section \<open>Armored keys and identities\<close>


lemma bytes_pubkey_bytes:
  assumes "wf_pubkey pk"
  shows "bytes_pubkey (take pubkeysize (pubkey_bytes pk)) ident = pk\<lparr>pk_ident := ident\<rparr>"
    and "length (take pubkeysize (pubkey_bytes pk)) = pubkeysize"
  using assms
  by (simp_all add: wf_pubkey_def bytes_pubkey_def pubkey_bytes_def pubkeysize_def field_def
      RANDOMIDLEN_def SIGPUBLICBYTES_def ENCPUBLICBYTES_def)

lemma no_marker_in_begin_line:
  "strstr (''-----BEGIN REOP '' @ ''PUBLIC KEY'' @ ''-----'') ''-----END REOP '' = None"
  "strstr (''-----BEGIN REOP '' @ ''SECRET KEY'' @ ''-----'') ''-----END REOP '' = None"
  "strstr (''-----BEGIN REOP '' @ ''SIGNATURE'' @ ''-----'') ''-----END REOP '' = None"
  by simp_all

lemma pubkey_armor:
  assumes wf: "wf_pubkey pk" and I: "CHR ''\<newline>'' \<notin> set (pk_ident pk)"
    "strstr (pk_ident pk) ''-----END REOP '' = None"
  shows "\<exists>s. reop_encodepubkey junk pk = Inr s
           \<and> reop_parsepubkey s
               = Inr (pk\<lparr>pk_ident := scanf_s 63 (pk_ident pk @ CHR ''\<newline>''
                         # wrapped 0 (b64enc (take pubkeysize (pubkey_bytes pk)))
                         @ [CHR ''\<newline>''])\<rparr>)"
proof -
  define key where "key = take pubkeysize (pubkey_bytes pk)"
  have k: "length key = pubkeysize"
    unfolding key_def by (rule bytes_pubkey_bytes(2) [OF wf])
  have L: "length (b64enc key) = 104"
    by (simp add: length_b64enc k pubkeysize_def)
  have id: "length (pk_ident pk) < 64" "CHR 0x00 \<notin> set (pk_ident pk)"
    using wf by (simp_all add: wf_pubkey_def IDENTLEN_def)
  obtain s where enc: "encodekey junk ''PUBLIC KEY'' key (pk_ident pk) = Inr s"
    and dec: "parsekeydata s ''PUBLIC KEY'' pubkeysize
               = Inr (key, scanf_s 63 (pk_ident pk @ CHR ''\<newline>'' # wrapped 0 (b64enc key)
                                        @ [CHR ''\<newline>'']))"
    using parse_encoded [OF L, of 0 "''PUBLIC KEY''" "pk_ident pk" pubkeysize junk]
      id I k no_marker_in_begin_line(1)
    by auto
  show ?thesis
    using enc dec bytes_pubkey_bytes(1) [OF wf]
    by (simp add: reop_encodepubkey_def reop_parsepubkey_def key_def)
qed

lemma isspace_ident_facts:
  assumes "\<forall>c\<in>set ident. \<not> isspace c"
  shows "CHR ''\<newline>'' \<notin> set ident" and "strstr ident ''-----END REOP '' = None"
proof -
  show "CHR ''\<newline>'' \<notin> set ident"
    using assms by auto
  have "CHR '' '' \<notin> set ident"
    using assms by (auto simp: isspace_def)
  then show "strstr ident ''-----END REOP '' = None"
    by (intro strstr_None_char [of "CHR '' ''"]) simp_all
qed

lemma ident_roundtrip:
  assumes kind: "(info, keylen) \<in> {(''PUBLIC KEY'', pubkeysize), (''SECRET KEY'', seckeysize),
                                    (''SIGNATURE'', sigsize)}"
    and key: "length key = keylen"
    and ident: "ident \<noteq> []" "length ident \<le> 63"
      "\<forall>c\<in>set ident. \<not> isspace c \<and> c \<noteq> CHR 0x00"
  shows "\<exists>s. encodekey junk info key ident = Inr s
           \<and> parsekeydata s info keylen = Inr (key, ident)"
proof -
  have sp: "\<forall>c\<in>set ident. \<not> isspace c" and nul: "CHR 0x00 \<notin> set ident"
    using ident(3) by auto
  note I = isspace_ident_facts [OF sp]
  have tok: "scanf_s 63 (ident @ CHR ''\<newline>'' # R) = ident" for R
    using ident(1) sp ident(2) by (rule scanf_s_token)
  consider "info = ''PUBLIC KEY''" "keylen = 76" | "info = ''SECRET KEY''" "keylen = 172"
    | "info = ''SIGNATURE''" "keylen = 74"
    using kind by (auto simp: pubkeysize_def seckeysize_def sigsize_def)
  then show ?thesis
  proof cases
    case 1
    have L: "length (b64enc key) = 104"
      by (simp add: length_b64enc key 1)
    show ?thesis
      using parse_encoded [OF L, of 0 info ident keylen junk] nul I key ident(2)
        no_marker_in_begin_line(1)
      by (simp add: 1 tok)
  next
    case 2
    have L: "length (b64enc key) = 232"
      by (simp add: length_b64enc key 2)
    show ?thesis
      using parse_encoded [OF L, of 2 info ident keylen junk] nul I key ident(2)
        no_marker_in_begin_line(2)
      by (simp add: 2 tok)
  next
    case 3
    have L: "length (b64enc key) = 100"
      by (simp add: length_b64enc key 3)
    show ?thesis
      using parse_encoded [OF L, of 0 info ident keylen junk] nul I key ident(2)
        no_marker_in_begin_line(3)
      by (simp add: 3 tok)
  qed
qed

lemma ex_alice_bytes: "length (take pubkeysize (pubkey_bytes (fst ex_alice))) = pubkeysize"
  by (rule bytes_pubkey_bytes(2) [OF wf_ex_alice_pub])

lemma scanf_s_first_token:
  assumes ws: "\<forall>c\<in>set ws. isspace c" and tok: "tok \<noteq> []" "\<forall>c\<in>set tok. \<not> isspace c"
    and R: "R \<noteq> [] \<longrightarrow> isspace (hd R)"
  shows "scanf_s n (ws @ tok @ R) = take n tok"
proof -
  have "dropWhile isspace (ws @ tok @ R) = dropWhile isspace (tok @ R)"
    using ws by (simp add: dropWhile_append2)
  also have "\<dots> = tok @ R"
    using tok by (cases tok) auto
  finally have 1: "dropWhile isspace (ws @ tok @ R) = tok @ R" .
  have "takeWhile (\<lambda>c. \<not> isspace c) R = []"
    using R by (cases R) auto
  then have 2: "takeWhile (\<lambda>c. \<not> isspace c) (tok @ R) = tok"
    using tok(2) by (simp add: takeWhile_append2)
  show ?thesis
    by (simp add: scanf_s_def 1 2)
qed

lemma wrapped_b64:
  "CHR 0x00 \<notin> set (wrapped m (b64enc key))" "CHR ''-'' \<notin> set (wrapped m (b64enc key))"
  "filter (\<lambda>c. \<not> isspace c) (wrapped m (b64enc key)) = b64enc key"
proof -
  have chars: "\<forall>c\<in>set (b64enc key). \<not> isspace c \<and> c \<noteq> CHR ''-'' \<and> c \<noteq> CHR 0x00"
    using set_b64enc [of key] b64_text_chars by blast
  have setW: "set (wrapped m (b64enc key)) \<subseteq> set (b64enc key) \<union> {CHR ''\<newline>''}"
    by (rule set_wrapped)
  show "CHR 0x00 \<notin> set (wrapped m (b64enc key))" "CHR ''-'' \<notin> set (wrapped m (b64enc key))"
    using chars setW by auto
  show "filter (\<lambda>c. \<not> isspace c) (wrapped m (b64enc key)) = b64enc key"
    using chars by (intro filter_wrapped) simp_all
qed




lemma wf_ex_spaced: "wf_pubkey ex_spaced_pubkey"
  using wf_ex_alice_pub by (simp add: ex_spaced_pubkey_def wf_pubkey_def IDENTLEN_def)


section \<open>Armored secret keys\<close>


lemma ntohl_htonl_42: "ntohl (htonl 42) = 42"
  by (simp add: ntohl_def htonl_def)

lemma length_htonl: "length (htonl w) = 4"
  by (simp add: htonl_def)

lemma kdf_given:
  assumes "bcrypt_contract P" and "length salt = 16"
  shows "\<exists>k. length k = SYMKEYBYTES
           \<and> (\<forall>e c. kdf P e salt (if cstr pw = [] then 0 else 42) (Some pw) c SYMKEYBYTES = Inr k)"
proof (cases "cstr pw = []")
  case True
  then show ?thesis
    by (intro exI [of _ "replicate SYMKEYBYTES 0"]) (simp add: kdf_def)
next
  case False
  have "(42 :: 32 word) \<noteq> 0"
    by simp
  with assms False obtain k where
    "bcrypt_pbkdf P (cstr pw) salt SYMKEYBYTES 42 = Some k" "length k = SYMKEYBYTES"
    unfolding bcrypt_contract_def by blast
  then show ?thesis
    using False by (intro exI [of _ k]) (simp add: kdf_def)
qed

lemma encryptseckey_wrapped:
  assumes "kdf P e (fst (randombytes 16 r)) (if cstr pw = [] then 0 else 42) (Some pw) True
             SYMKEYBYTES = Inr k"
  shows "encryptseckey P e r sk (Some pw)
           = Inr (wrapped_with P r sk (if cstr pw = [] then 0 else 42) k)"
  using assms by (simp add: encryptseckey_def wrapped_with_def split_def Let_def)

lemma wrapped_with_ident:
  "fst (wrapped_with P r (sk\<lparr>sk_ident := i\<rparr>) rounds k)
     = (fst (wrapped_with P r sk rounds k))\<lparr>sk_ident := i\<rparr>"
  by (simp add: wrapped_with_def Let_def)

lemma wf_wrapped_with:
  assumes "secretbox_contract P" and "wf_seckey sk" and "length k = SYMKEYBYTES"
  shows "wf_seckey (fst (wrapped_with P r sk rounds k))"
  using assms(2)
    symencryptraw_opens(2-4) [OF assms(1,3), of "snd (randombytes 16 r)"
      "sk_sigkey sk @ sk_enckey sk"]
  by (simp add: wf_seckey_def wrapped_with_def Let_def length_htonl SIGSECRETBYTES_def
      ENCSECRETBYTES_def)

lemma bytes_seckey_bytes:
  assumes "wf_seckey k"
  shows "bytes_seckey (take seckeysize (seckey_bytes k)) ident = k\<lparr>sk_ident := ident\<rparr>"
    and "length (take seckeysize (seckey_bytes k)) = seckeysize"
  using assms
  by (simp_all add: wf_seckey_def bytes_seckey_def seckey_bytes_def seckeysize_def field_def
      RANDOMIDLEN_def SYMNONCEBYTES_def SYMTAGBYTES_def SIGSECRETBYTES_def ENCSECRETBYTES_def)

text \<open>Claim C5, as amended. For every secret key (carrying the \<open>BK\<close> tag it is generated
  with) whose identity contains neither a newline nor the text \<open>-----END REOP \<close>, and every
  passphrase given as an argument, encoding the key with that passphrase succeeds, and
  parsing the armored string with the same passphrase succeeds and returns a key with
  exactly the 64-byte signing key and the 32-byte encryption key of the original. The library
  is a parameter: its secret box opens what it sealed, and \<open>bcrypt_pbkdf\<close> succeeds on a
  non-empty passphrase.\<close>

theorem seckey_encode_parse_roundtrip:
  assumes sb: "secretbox_contract P" and bc: "bcrypt_contract P"
    and wf: "wf_seckey sk" and alg: "sk_kdfalg sk = KDFALG"
    and I: "CHR ''\<newline>'' \<notin> set (sk_ident sk)"
      "strstr (sk_ident sk) ''-----END REOP '' = None"
  shows "\<exists>s r' k. reop_encodeseckey P e r junk sk (Some pw) = Inr (s, r')
           \<and> reop_parseseckey P e' s (Some pw) = Inr (Some k)
           \<and> sk_sigkey k = sk_sigkey sk \<and> sk_enckey k = sk_enckey sk"
proof -
  define rounds :: "32 word" where "rounds = (if cstr pw = [] then 0 else 42)"
  define salt where "salt = fst (randombytes 16 r)"
  have "length salt = 16"
    by (simp add: salt_def randombytes_def)
  from kdf_given [OF bc this, of pw] obtain k where k: "length k = SYMKEYBYTES"
    and kdf: "\<And>e c. kdf P e salt rounds (Some pw) c SYMKEYBYTES = Inr k"
    unfolding rounds_def by blast
  define W where "W = wrapped_with P r sk rounds k"
  define B where "B = take seckeysize (seckey_bytes (fst W))"
  have enc: "encryptseckey P e r sk (Some pw) = Inr W"
    unfolding W_def rounds_def
    by (rule encryptseckey_wrapped) (use kdf in \<open>simp add: salt_def rounds_def\<close>)
  have wfc: "wf_seckey (fst W)"
    unfolding W_def by (rule wf_wrapped_with [OF sb wf k])
  have lenB: "length B = seckeysize"
    unfolding B_def by (rule bytes_seckey_bytes(2) [OF wfc])
  have L: "length (b64enc B) = 232"
    unfolding length_b64enc lenB by (simp add: seckeysize_def)
  have nul: "CHR 0x00 \<notin> set (sk_ident sk)" and il: "length (sk_ident sk) \<le> 63"
    using wf by (simp_all add: wf_seckey_def IDENTLEN_def)
  define tok where "tok = scanf_s 63 (sk_ident sk @ CHR ''\<newline>'' # wrapped 2 (b64enc B)
                              @ [CHR ''\<newline>''])"
  obtain s where s: "encodekey junk ''SECRET KEY'' B (sk_ident sk) = Inr s"
    and p: "parsekeydata s ''SECRET KEY'' seckeysize = Inr (B, tok)"
    using parse_encoded [OF L, of 2 "''SECRET KEY''" "sk_ident sk" seckeysize junk]
      nul il I lenB no_marker_in_begin_line(2)
    unfolding tok_def by auto
  have rt: "ntohl (htonl rounds) = rounds"
    by (simp add: rounds_def ntohl_htonl_42)
  have len: "length (sk_sigkey (sk\<lparr>sk_ident := tok\<rparr>)) = SIGSECRETBYTES"
    and alg': "sk_kdfalg (sk\<lparr>sk_ident := tok\<rparr>) = KDFALG"
    using wf alg by (simp_all add: wf_seckey_def)
  have kdf': "kdf P e' (fst (randombytes 16 r)) rounds (Some pw) False SYMKEYBYTES = Inr k"
    using kdf by (simp add: salt_def)
  have bs: "bytes_seckey B tok = fst (wrapped_with P r (sk\<lparr>sk_ident := tok\<rparr>) rounds k)"
  proof -
    have "bytes_seckey B tok = (fst W)\<lparr>sk_ident := tok\<rparr>"
      unfolding B_def by (rule bytes_seckey_bytes(1) [OF wfc])
    then show ?thesis
      by (simp only: W_def wrapped_with_ident)
  qed
  have dec: "decryptseckey P e' (bytes_seckey B tok) (Some pw)
               = Inr (0, (bytes_seckey B tok)\<lparr>sk_sigkey := sk_sigkey sk, sk_enckey := sk_enckey sk\<rparr>)"
    unfolding bs
    using decryptseckey_wrapped [OF sb len alg' k kdf' rt] by simp
  have 1: "reop_encodeseckey P e r junk sk (Some pw) = Inr (s, snd W)"
    using s by (simp add: reop_encodeseckey_def enc split_def B_def)
  have 2: "reop_parseseckey P e' s (Some pw)
             = Inr (Some ((bytes_seckey B tok)\<lparr>sk_sigkey := sk_sigkey sk,
                                               sk_enckey := sk_enckey sk\<rparr>))"
    by (simp add: reop_parseseckey_def p dec)
  show ?thesis
    using 1 2 by (intro exI conjI) (assumption, assumption, simp_all)
qed

lemma parsekeydata_marker_ident:
  assumes T: "T = (''-----BEGIN REOP '' @ keytype @ ''-----'') @ CHR ''\<newline>''
                    # ''ident:'' @ ''-----END REOP '' @ rest"
    and nul: "CHR 0x00 \<notin> set keytype" "CHR 0x00 \<notin> set rest"
    and kt: "CHR ''\<newline>'' \<notin> set keytype"
      "strstr (''-----BEGIN REOP '' @ keytype @ ''-----'') ''-----END REOP '' = None"
  shows "parsekeydata T keytype keylen = Inl No_ident_found"
proof -
  define endkey where "endkey = ''-----END REOP ''"
  define A0 where "A0 = ''-----BEGIN REOP '' @ keytype @ ''-----''"
  define E where "E = length A0 + 1 + 6"
  have T': "T = A0 @ CHR ''\<newline>'' # ''ident:'' @ endkey @ rest"
    by (simp add: T A0_def endkey_def)
  have c: "cstr T = T"
    using nul by (intro cstr_id) (simp add: T)
  have ek: "endkey \<noteq> []" "CHR ''\<newline>'' \<notin> set endkey" "hd endkey = CHR ''-''"
    by (simp_all add: endkey_def)
  have b1: "strncmp_eq T ''-----BEGIN REOP '' (strlen ''-----BEGIN REOP '')"
    by (simp add: strncmp_eq_def c strlen_def cstr_def T)
  have "cstr (drop 16 T) = drop 16 T"
    using nul by (intro cstr_id) (simp add: T)
  moreover have "cstr keytype = keytype"
    using nul by (intro cstr_id)
  ultimately have b2: "strncmp_eq (drop (strlen ''-----BEGIN REOP '') T) keytype (strlen keytype)"
    by (simp add: strncmp_eq_def strlen_def T) (simp add: cstr_def)
  have n0: "strstr A0 endkey = None"
    using kt(2) by (simp add: A0_def endkey_def)
  have "strstr (''ident:'' @ endkey @ rest) endkey
          = map_option (\<lambda>i. length ''ident:'' + i) (strstr (endkey @ rest) endkey)"
    using ek by (intro strstr_skip_first) simp_all
  then have s1: "strstr (''ident:'' @ endkey @ rest) endkey = Some 6"
    by (simp add: strstr_here)
  have s0: "strstr T endkey = Some E"
    unfolding T' E_def
    using strstr_skip_line [OF ek(1,2) n0, of "''ident:'' @ endkey @ rest"] s1
    by simp
  have cut: "take E T = A0 @ CHR ''\<newline>'' # ''ident:''"
    by (simp add: T' E_def)
  have "CHR ''\<newline>'' \<notin> set A0"
    using kt(1) by (simp add: A0_def)
  then have nlpos: "strchr (take E T) CHR ''\<newline>'' = Some (length A0)"
    unfolding cut by (rule strchr_first)
  have d1: "drop (Suc (length A0)) (take E T) = ''ident:''"
    by (simp add: cut)
  have "readident ''ident:'' = Inl No_ident_found"
    by (simp add: readident_def cstr_def scanf_s_def)
  then have ri: "readident (drop (Suc (length A0)) (take E T)) = Inl No_ident_found"
    by (simp only: d1)
  show ?thesis
    unfolding parsekeydata_def Let_def c
    using b1 b2
    by (simp add: s0 [unfolded endkey_def] nlpos ri)
qed

lemma ex_alice_ident: "sk_ident (snd ex_alice) = ''alice''"
  by (simp add: ex_alice_def reop_generate_eq strlcpy_def cstr_def IDENTLEN_def)

theorem seckey_encode_parse_roundtrip_witness:
  "secretbox_contract ref_prims \<and> bcrypt_contract ref_prims \<and> wf_seckey (snd ex_alice)
   \<and> sk_kdfalg (snd ex_alice) = KDFALG
   \<and> CHR ''\<newline>'' \<notin> set (sk_ident (snd ex_alice))
   \<and> strstr (sk_ident (snd ex_alice)) ''-----END REOP '' = None
   \<and> (\<exists>s r' k. reop_encodeseckey ref_prims ex_env ex_rand [] (snd ex_alice) (Some ''pw'')
                  = Inr (s, r')
           \<and> reop_parseseckey ref_prims ex_env s (Some ''pw'') = Inr (Some k)
           \<and> sk_sigkey k = sk_sigkey (snd ex_alice) \<and> sk_enckey k = sk_enckey (snd ex_alice))"
proof -
  have I: "CHR ''\<newline>'' \<notin> set (sk_ident (snd ex_alice))"
    "strstr (sk_ident (snd ex_alice)) ''-----END REOP '' = None"
    by (simp_all add: ex_alice_ident)
  show ?thesis
    using seckey_encode_parse_roundtrip [OF ref_secretbox_contract ref_bcrypt_contract
        wf_ex_alice_sec ex_alice_kdfalg I, of ex_env ex_rand "[]" "''pw''" ex_env]
      ref_secretbox_contract ref_bcrypt_contract wf_ex_alice_sec ex_alice_kdfalg I
    by simp
qed

lemma wf_ex_marked: "wf_seckey ex_marked_seckey"
  using wf_ex_alice_sec by (simp add: ex_marked_seckey_def wf_seckey_def IDENTLEN_def)

text \<open>The claim as stated fails: alice's secret key with the identity \<open>-----END REOP \<close> is
  encoded under the passphrase \<open>pw\<close>; parsing the armored string with the same passphrase
  stops with the error \<open>no ident found\<close>, since the first end marker is the one in the
  \<open>ident\<close> line.\<close>

theorem marked_ident_seckey_not_parsed:
  "wf_seckey ex_marked_seckey \<and> sk_kdfalg ex_marked_seckey = KDFALG
   \<and> \<not> isl (reop_encodeseckey ref_prims ex_env ex_rand [] ex_marked_seckey (Some ''pw''))
   \<and> reop_parseseckey ref_prims ex_env ex_marked_armor (Some ''pw'') = Inl No_ident_found"
proof -
  define rounds :: "32 word" where "rounds = (if cstr ''pw'' = [] then 0 else 42)"
  from kdf_given [OF ref_bcrypt_contract, of "fst (randombytes 16 ex_rand)" "''pw''"]
  obtain k where k: "length k = SYMKEYBYTES"
    and kdf: "\<And>e c. kdf ref_prims e (fst (randombytes 16 ex_rand)) rounds (Some ''pw'') c
                        SYMKEYBYTES = Inr k"
    unfolding rounds_def by (auto simp: randombytes_def)
  define W where "W = wrapped_with ref_prims ex_rand ex_marked_seckey rounds k"
  define B where "B = take seckeysize (seckey_bytes (fst W))"
  have enc: "encryptseckey ref_prims ex_env ex_rand ex_marked_seckey (Some ''pw'') = Inr W"
    unfolding W_def rounds_def
    by (rule encryptseckey_wrapped) (use kdf in \<open>simp add: rounds_def\<close>)
  have wfc: "wf_seckey (fst W)"
    unfolding W_def by (rule wf_wrapped_with [OF ref_secretbox_contract wf_ex_marked k])
  have lenB: "length B = seckeysize"
    unfolding B_def by (rule bytes_seckey_bytes(2) [OF wfc])
  have L: "length (b64enc B) = 232"
    unfolding length_b64enc lenB by (simp add: seckeysize_def)
  define rest where "rest = CHR ''\<newline>'' # (wrapped 2 (b64enc B) @ [CHR ''\<newline>''])
                              @ ''-----END REOP SECRET KEY-----'' @ [CHR ''\<newline>'']"
  define s where "s = (''-----BEGIN REOP '' @ ''SECRET KEY'' @ ''-----'') @ CHR ''\<newline>''
                    # ''ident:'' @ ''-----END REOP '' @ rest"
  have "encodekey [] ''SECRET KEY'' B ''-----END REOP '' = Inr s"
    using encodekey_block [OF L, of 2 "''SECRET KEY''" "''-----END REOP ''" "[]"]
    by (simp add: s_def rest_def)
  moreover have "sk_ident ex_marked_seckey = ''-----END REOP ''"
    by (simp add: ex_marked_seckey_def)
  ultimately have 1: "reop_encodeseckey ref_prims ex_env ex_rand [] ex_marked_seckey (Some ''pw'')
                  = Inr (s, snd W)"
    by (simp add: reop_encodeseckey_def enc split_def B_def)
  then have a: "ex_marked_armor = s"
    by (simp add: ex_marked_armor_def)
  have "set (wrapped 2 (b64enc B)) \<subseteq> set (b64enc B) \<union> {CHR ''\<newline>''}"
    by (rule set_wrapped)
  then have "CHR 0x00 \<notin> set (wrapped 2 (b64enc B))"
    using b64enc_no_nul [of B] by auto
  then have "CHR 0x00 \<notin> set rest"
    by (simp add: rest_def)
  then have "parsekeydata s ''SECRET KEY'' seckeysize = Inl No_ident_found"
    using no_marker_in_begin_line(2)
    by (intro parsekeydata_marker_ident [OF s_def]) simp_all
  then have 2: "reop_parseseckey ref_prims ex_env ex_marked_armor (Some ''pw'')
                  = Inl No_ident_found"
    by (simp add: reop_parseseckey_def a)
  have "sk_kdfalg ex_marked_seckey = KDFALG"
    using ex_alice_kdfalg by (simp add: ex_marked_seckey_def)
  then show ?thesis
    using wf_ex_marked 1 2 by simp
qed

section \<open>Searching for the last signature opener\<close>


lemma ref_sign_size_contract: "sign_size_contract ref_prims"
  by (simp add: sign_size_contract_def ref_prims_def SIGBYTES_def)

lemma strstr_Some:
  assumes "strstr hay needle = Some i"
  shows "prefix needle (drop i hay)" and "i \<le> length hay"
  using assms
proof (induction hay arbitrary: i)
  case Nil
  {
    case 1
    then show ?case by (simp split: if_splits)
  next
    case 2
    then show ?case by (simp split: if_splits)
  }
next
  case (Cons x xs)
  {
    case 1
    then show ?case
      using Cons.IH(1) by (auto split: if_splits)
  next
    case 2
    then show ?case
      using Cons.IH(2) by (auto split: if_splits)
  }
qed

lemma strstr_occurs:
  assumes "prefix needle (drop p hay)" and "p \<le> length hay"
  shows "\<exists>i\<le>p. strstr hay needle = Some i"
  using assms
proof (induction hay arbitrary: p)
  case Nil
  then show ?case by simp
next
  case (Cons x xs)
  show ?case
  proof (cases "prefix needle (x # xs)")
    case True
    then show ?thesis by simp
  next
    case False
    with Cons.prems obtain q where q: "p = Suc q"
      by (cases p) auto
    with Cons.prems have "prefix needle (drop q xs)" "q \<le> length xs"
      by simp_all
    from Cons.IH [OF this] obtain i where "i \<le> q" "strstr xs needle = Some i"
      by blast
    with False q show ?thesis
      by simp
  qed
qed

lemma nextsig_loop_last:
  assumes "needle \<noteq> []"
    and "prefix needle hay" and "prefix needle (drop p hay)" and "p \<le> length hay"
    and "strstr (drop (Suc p) hay) needle = None"
  shows "nextsig_loop hay needle = p"
  using assms(2-)
proof (induction p arbitrary: hay rule: less_induct)
  case (less p)
  have ne: "hay \<noteq> []"
    using assms(1) less.prems(1) by auto
  show ?case
  proof (cases p)
    case 0
    then have "strstr (drop 1 hay) needle = None"
      using less.prems(4) by simp
    with ne 0 show ?thesis
      by (subst nextsig_loop.simps) simp
  next
    case (Suc q)
    have "prefix needle (drop q (drop 1 hay))" "q \<le> length (drop 1 hay)"
      using less.prems(2,3) Suc by simp_all
    from strstr_occurs [OF this] obtain i where i: "i \<le> q" "strstr (drop 1 hay) needle = Some i"
      by blast
    define hay' where "hay' = drop (1 + i) hay"
    have 1: "prefix needle hay'"
      using strstr_Some(1) [OF i(2)] by (simp add: hay'_def add.commute)
    have 2: "prefix needle (drop (q - i) hay')" "q - i \<le> length hay'"
      using less.prems(2,3) Suc i(1) by (simp_all add: hay'_def)
    have 3: "strstr (drop (Suc (q - i)) hay') needle = None"
      using less.prems(4) Suc i(1) by (simp add: hay'_def)
    have "q - i < p"
      using Suc by simp
    from less.IH [OF this 1 2 3] have "nextsig_loop hay' needle = q - i" .
    with ne i Suc show ?thesis
      by (subst nextsig_loop.simps) (simp add: hay'_def)
  qed
qed

lemma prefix_line:
  assumes "prefix (L @ [c]) (X @ c # Y)" and "c \<notin> set L" and "c \<notin> set X"
  shows "L = X"
proof -
  from assms(1) obtain Z where "X @ c # Y = L @ c # Z"
    by (auto simp: prefix_def)
  moreover have "takeWhile (\<lambda>a. a \<noteq> c) (X @ c # Y) = X"
    using assms(3) by (induction X) auto
  moreover have "takeWhile (\<lambda>a. a \<noteq> c) (L @ c # Z) = L"
    using assms(2) by (induction L) auto
  ultimately show ?thesis
    by simp
qed

lemma strstr_next_line:
  assumes "c \<notin> set L" and "c \<notin> set X" and "\<not> suffix L X"
  shows "strstr (X @ c # Y) (L @ [c])
           = map_option (\<lambda>i. length X + 1 + i) (strstr Y (L @ [c]))"
  using assms(2,3)
proof (induction X)
  case Nil
  then have "L \<noteq> []"
    by simp
  then have "\<not> prefix (L @ [c]) (c # Y)"
    using assms(1) by (cases L) auto
  then show ?case
    by (simp add: o_def)
next
  case (Cons x X)
  have "\<not> prefix (L @ [c]) ((x # X) @ c # Y)"
    using prefix_line [OF _ assms(1) Cons.prems(1)] Cons.prems(2) by auto
  moreover have "\<not> suffix L X"
    using Cons.prems(2) by (auto simp: suffix_Cons)
  ultimately show ?case
    using Cons by (simp add: option.map_comp o_def)
qed

lemma not_suffix_char: "c \<in> set L \<Longrightarrow> c \<notin> set X \<Longrightarrow> \<not> suffix L X"
  using set_mono_suffix by fastforce

lemma bytes_of_string_of: "bytes_of (string_of bs) = bs"
proof -
  have "of_nat (of_char (char_of (unat b))) = b" for b :: byte
  proof -
    have "unat b < 256"
      using unsigned_less [of b] by simp
    then show ?thesis
      by simp
  qed
  then show ?thesis
    by (simp add: bytes_of_def string_of_def o_def)
qed

lemma string_of_no_nul:
  assumes "0 \<notin> set bs"
  shows "CHR 0x00 \<notin> set (string_of bs)"
proof
  assume "CHR 0x00 \<in> set (string_of bs)"
  then obtain b where b: "b \<in> set bs" "char_of (unat b) = CHR 0x00"
    by (auto simp: string_of_def)
  have "unat b < 256"
    using unsigned_less [of b] by simp
  then have "of_char (char_of (unat b) :: char) = unat b"
    by simp
  then have "unat b = 0"
    by (simp only: b(2)) simp
  then have "b = 0"
    by (simp add: unat_eq_0)
  with b(1) assms show False
    by simp
qed

section \<open>Reading a file and writing the signature lines\<close>


declare nextsig_loop.simps [simp del]

declare readloop.simps [simp del]

declare writeb64data_loop.simps [simp del]

lemma readallorfail_regular:
  assumes "f_regular f" and "length (f_data f) \<le> maxmsgsize"
  shows "readallorfail (Inr f) = Inr (f_data f)"
proof -
  define n where "n = length (f_data f)"
  have 2: "readloop (Suc 0) (f_data f) [] = Inr (f_data f)"
    by (subst readloop.simps) simp
  have "readloop (n + 1) [] (f_data f) = Inr (f_data f)"
  proof (cases "n = 0")
    case True
    then show ?thesis
      by (subst readloop.simps) (simp add: n_def)
  next
    case False
    then show ?thesis
      by (subst readloop.simps) (simp add: n_def [symmetric] Let_def 2)
  qed
  then show ?thesis
    using assms by (simp add: readallorfail_def readall_def n_def)
qed

lemma readallorfail_too_large:
  assumes "f_regular f" and "maxmsgsize < length (f_data f)"
  shows "readallorfail (Inr f) = Inl File_too_large"
  using assms by (simp add: readallorfail_def readall_def)

lemma writeb64data_two_lines:
  assumes "76 < length b" and "length b \<le> 152" and "CHR 0x00 \<notin> set b"
  shows "writeb64data b = wrapped 0 b @ [CHR ''\<newline>'']"
proof -
  have ne: "b \<noteq> []" "drop 76 b \<noteq> []"
    using assms by auto
  have 1: "writeb64data_loop b = take 76 b @ [CHR ''\<newline>''] @ writeb64data_loop (drop 76 b)"
    using assms ne by (subst writeb64data_loop.simps) simp
  have 2: "writeb64data_loop (drop 76 b) = drop 76 b @ [CHR ''\<newline>''] @ writeb64data_loop []"
    using assms ne by (subst writeb64data_loop.simps) simp
  have 3: "writeb64data_loop [] = []"
    by (subst writeb64data_loop.simps) simp
  show ?thesis
    unfolding writeb64data_def cstr_id [OF assms(3)] 1 2 3
    by (simp add: wrapped_def wraprows_def)
qed

lemma nextsig_loop_is_last:
  assumes "needle \<noteq> []" and "prefix needle hay"
  shows "prefix needle (drop (nextsig_loop hay needle) hay)
         \<and> nextsig_loop hay needle \<le> length hay
         \<and> strstr (drop (Suc (nextsig_loop hay needle)) hay) needle = None"
  using assms
proof (induction hay needle rule: nextsig_loop.induct)
  case (1 hay beginsig)
  have ne: "hay \<noteq> []"
    using "1.prems" by auto
  show ?case
  proof (cases "strstr (drop 1 hay) beginsig")
    case None
    then have "nextsig_loop hay beginsig = 0"
      using ne by (subst nextsig_loop.simps) simp
    with None "1.prems" show ?thesis
      by simp
  next
    case (Some i)
    then have q: "nextsig_loop hay beginsig = 1 + i + nextsig_loop (drop (1 + i) hay) beginsig"
      using ne by (subst nextsig_loop.simps) simp
    have p: "prefix beginsig (drop (1 + i) hay)"
      using strstr_Some(1) [OF Some] by (simp add: add.commute)
    note IH = "1.IH" [OF ne Some "1.prems"(1) p]
    define q' where "q' = nextsig_loop (drop (1 + i) hay) beginsig"
    have a: "prefix beginsig (drop (q' + (1 + i)) hay)"
      and b: "q' \<le> length hay - (1 + i)"
      and c: "strstr (drop (Suc q' + (1 + i)) hay) beginsig = None"
      using IH by (simp_all add: q'_def)
    have "i \<le> length (drop 1 hay)"
      by (rule strstr_Some(2) [OF Some])
    then have "1 + i \<le> length hay"
      using ne by (cases hay) auto
    with a b c show ?thesis
      unfolding q q'_def [symmetric] by (simp add: add.commute add.left_commute)
  qed
qed

section \<open>The signature block of a signed message\<close>


lemma no_opener_after:
  assumes I: "CHR '' '' \<notin> set ident" "CHR ''\<newline>'' \<notin> set ident"
    and W: "CHR ''-'' \<notin> set W"
  shows "strstr (''----BEGIN REOP SIGNATURE-----'' @ CHR ''\<newline>''
                 # (''ident:'' @ ident) @ CHR ''\<newline>''
                 # (W @ [CHR ''\<newline>''])
                 @ ''-----END REOP SIGNED MESSAGE-----'' @ CHR ''\<newline>'' # [])
           (''-----BEGIN REOP SIGNATURE-----'' @ [CHR ''\<newline>'']) = None"
proof -
  define L where "L = ''-----BEGIN REOP SIGNATURE-----''"
  define n where "n = L @ [CHR ''\<newline>'']"
  define X1 where "X1 = ''----BEGIN REOP SIGNATURE-----''"
  define X2 where "X2 = ''ident:'' @ ident"
  define X3 where "X3 = W @ [CHR ''\<newline>'']"
  define X4 where "X4 = ''-----END REOP SIGNED MESSAGE-----''"
  have nl: "CHR ''\<newline>'' \<notin> set L"
    by (simp add: L_def)
  have 4: "strstr (X4 @ CHR ''\<newline>'' # []) n = None"
    unfolding n_def
    by (subst strstr_next_line [OF nl _ not_suffix_char [of "CHR ''B''"]])
      (simp_all add: X4_def L_def)
  have "n \<noteq> []" "hd n \<notin> set X3"
    using W by (simp_all add: n_def L_def X3_def)
  then have "strstr (X3 @ X4 @ CHR ''\<newline>'' # []) n
               = map_option (\<lambda>i. length X3 + i) (strstr (X4 @ CHR ''\<newline>'' # []) n)"
    by (rule strstr_skip_first)
  then have 3: "strstr (X3 @ X4 @ CHR ''\<newline>'' # []) n = None"
    by (simp add: 4)
  have "CHR ''\<newline>'' \<notin> set X2" "\<not> suffix L X2"
    using I by (simp_all add: X2_def not_suffix_char [of "CHR '' ''"] L_def)
  from strstr_next_line [OF nl this, of "X3 @ X4 @ CHR ''\<newline>'' # []", folded n_def]
  have 2: "strstr (X2 @ CHR ''\<newline>'' # X3 @ X4 @ CHR ''\<newline>'' # []) n = None"
    by (simp only: 3 option.map)
  have "length X1 < length L"
    by (simp add: X1_def L_def)
  then have "\<not> suffix L X1"
    using suffix_length_le [of L X1] by auto
  moreover have "CHR ''\<newline>'' \<notin> set X1"
    by (simp add: X1_def)
  ultimately have "strstr (X1 @ CHR ''\<newline>'' # X2 @ CHR ''\<newline>'' # X3 @ X4 @ CHR ''\<newline>'' # []) n
            = map_option (\<lambda>i. length X1 + 1 + i)
                (strstr (X2 @ CHR ''\<newline>'' # X3 @ X4 @ CHR ''\<newline>'' # []) n)"
    unfolding n_def by (intro strstr_next_line [OF nl])
  then have "strstr (X1 @ CHR ''\<newline>'' # X2 @ CHR ''\<newline>'' # X3 @ X4 @ CHR ''\<newline>'' # []) n = None"
    by (simp only: 2 option.map)
  then show ?thesis
    unfolding X1_def X2_def X3_def X4_def n_def L_def .
qed

lemma last_opener:
  assumes I: "CHR '' '' \<notin> set ident" "CHR ''\<newline>'' \<notin> set ident"
    and W: "CHR ''-'' \<notin> set W"
    and S: "S = (''-----BEGIN REOP SIGNATURE-----'' @ [CHR ''\<newline>''])
                 @ (''ident:'' @ ident) @ CHR ''\<newline>''
                 # (W @ [CHR ''\<newline>''])
                 @ ''-----END REOP SIGNED MESSAGE-----'' @ CHR ''\<newline>'' # []"
  shows "\<exists>first. strstr (M @ S) (''-----BEGIN REOP SIGNATURE-----'' @ [CHR ''\<newline>'']) = Some first
           \<and> first + nextsig_loop (drop first (M @ S))
                       (''-----BEGIN REOP SIGNATURE-----'' @ [CHR ''\<newline>'']) = length M"
proof -
  define n where "n = ''-----BEGIN REOP SIGNATURE-----'' @ [CHR ''\<newline>'']"
  have pS: "prefix n S"
    unfolding S n_def by (rule prefixI) simp
  have d: "drop (Suc (length M)) (M @ S) = drop 1 S"
    by simp
  have "drop 1 S = ''----BEGIN REOP SIGNATURE-----'' @ CHR ''\<newline>''
                 # (''ident:'' @ ident) @ CHR ''\<newline>''
                 # (W @ [CHR ''\<newline>''])
                 @ ''-----END REOP SIGNED MESSAGE-----'' @ CHR ''\<newline>'' # []"
    by (simp add: S)
  then have none: "strstr (drop (Suc (length M)) (M @ S)) n = None"
    unfolding d n_def by (simp only: no_opener_after [OF I W])
  have "prefix n (drop (length M) (M @ S))" "length M \<le> length (M @ S)"
    using pS by simp_all
  from strstr_occurs [OF this] obtain first where f: "first \<le> length M"
    "strstr (M @ S) n = Some first"
    by blast
  define hay where "hay = drop first (M @ S)"
  have 1: "prefix n hay"
    unfolding hay_def by (rule strstr_Some(1) [OF f(2)])
  have 2: "prefix n (drop (length M - first) hay)" "length M - first \<le> length hay"
    using pS f(1) by (simp_all add: hay_def)
  have 3: "strstr (drop (Suc (length M - first)) hay) n = None"
    using none f(1) by (simp add: hay_def)
  have "n \<noteq> []"
    by (simp add: n_def)
  from nextsig_loop_last [OF this 1 2 3]
  have "first + nextsig_loop (drop first (M @ S)) n = length M"
    using f(1) unfolding hay_def by arith
  with f(2) show ?thesis
    unfolding n_def by blast
qed

lemma bytes_sig_bytes:
  assumes "wf_sig sg"
  shows "bytes_sig (take sigsize (sig_bytes sg)) ident = sg\<lparr>sig_ident := ident\<rparr>"
    and "length (take sigsize (sig_bytes sg)) = sigsize"
  using assms
  by (simp_all add: wf_sig_def bytes_sig_def sig_bytes_def sigsize_def field_def
      RANDOMIDLEN_def SIGBYTES_def)

lemma strlcpy_ident:
  assumes "length ident \<le> 63" and "CHR 0x00 \<notin> set ident"
  shows "strlcpy ident IDENTLEN = ident"
  using assms by (simp add: strlcpy_def cstr_id IDENTLEN_def)

lemma wf_sig_generated:
  assumes "sign_size_contract P" and "length ident \<le> 63" and "CHR 0x00 \<notin> set ident"
  shows "wf_sig (reop_sign P (snd (fst (reop_generate P r ident))) msg)"
    and "sig_ident (reop_sign P (snd (fst (reop_generate P r ident))) msg) = ident"
  using assms
  by (simp_all add: wf_sig_def reop_sign_def reop_generate_eq strlcpy_ident signraw_def
      sign_size_contract_def SIGALG_def bytes_of_def RANDOMIDLEN_def)
    (simp add: IDENTLEN_def)

lemma written_signed_file:
  assumes wf: "wf_sig sg" and ident: "length ident \<le> 63" "CHR 0x00 \<notin> set ident"
  shows "writesignedmsg sg ident msg
           = Inr ((''-----BEGIN REOP SIGNED MESSAGE-----'' @ [CHR ''\<newline>'']) @ string_of msg
                  @ signature_block ident (take sigsize (sig_bytes sg)))"
    and "length (signature_block ident (take sigsize (sig_bytes sg))) = length ident + 174"
proof -
  define B where "B = take sigsize (sig_bytes sg)"
  have lenB: "length B = sigsize"
    unfolding B_def by (rule bytes_sig_bytes(2) [OF wf])
  have L: "length (b64enc B) = 100"
    unfolding length_b64enc lenB by (simp add: sigsize_def)
  have ntop: "reopb64_ntop B 1024 = Some (b64enc B)"
    by (simp add: reopb64_ntop_def L)
  have wb: "writeb64data (b64enc B) = wrapped 0 (b64enc B) @ [CHR ''\<newline>'']"
    by (rule writeb64data_two_lines) (simp_all add: L b64enc_no_nul)
  show "writesignedmsg sg ident msg
           = Inr ((''-----BEGIN REOP SIGNED MESSAGE-----'' @ [CHR ''\<newline>'']) @ string_of msg
                  @ signature_block ident (take sigsize (sig_bytes sg)))"
    unfolding writesignedmsg_def B_def [symmetric] ntop option.case wb cstr_id [OF ident(2)]
    using ident(1) by (simp add: signature_block_def)
  have "length (wrapped 0 (b64enc B)) = 101"
    using length_wrapped [of 0 "b64enc B"] by (simp add: L)
  then show "length (signature_block ident (take sigsize (sig_bytes sg))) = length ident + 174"
    by (simp add: signature_block_def B_def)
qed

lemma verified_span:
  assumes r: "readallorfail sigfile = Inr data"
    and v: "verifyembedded P getpubkey sigfile = Inr span"
  shows "take 36 (cstr data) = ''-----BEGIN REOP SIGNED MESSAGE-----'' @ [CHR ''\<newline>'']
         \<and> (\<exists>n. span = bytes_of (take n (drop 36 (cstr data)))
                \<and> prefix (''-----BEGIN REOP SIGNATURE-----'' @ [CHR ''\<newline>''])
                     (drop n (drop 36 (cstr data)))
                \<and> strstr (drop (Suc n) (drop 36 (cstr data)))
                     (''-----BEGIN REOP SIGNATURE-----'' @ [CHR ''\<newline>'']) = None)"
proof -
  define beginmsg where "beginmsg = ''-----BEGIN REOP SIGNED MESSAGE-----'' @ [CHR ''\<newline>'']"
  define beginsig where "beginsig = ''-----BEGIN REOP SIGNATURE-----'' @ [CHR ''\<newline>'']"
  define msg where "msg = drop 36 (cstr data)"
  have ne: "beginsig \<noteq> []"
    by (simp add: beginsig_def)
  from v have v': "(if \<not> strncmp_eq data beginmsg (strlen beginmsg) then Inl Invalid_signature
         else
            case strstr msg beginsig of
              None \<Rightarrow> Inl Invalid_signature
            | Some first \<Rightarrow>
               (case reop_parsesig (drop (first + nextsig_loop (drop first msg) beginsig) msg) of
                     Inl err \<Rightarrow> Inl err
                   | Inr sig \<Rightarrow>
                      (case getpubkey (sig_ident sig) of
                         None \<Rightarrow> Inl No_pubkey
                       | Some pubkey \<Rightarrow>
                          (case reop_verify P pubkey
                                  (bytes_of (take (first + nextsig_loop (drop first msg) beginsig) msg))
                                  sig of
                             REOP_V_OK \<Rightarrow>
                               Inr (bytes_of (take (first + nextsig_loop (drop first msg) beginsig) msg))
                           | REOP_V_MISMATCH \<Rightarrow> Inl Checked_against_wrong_key
                           | REOP_V_FAIL \<Rightarrow> Inl Signature_verification_failed)))) = Inr span"
    unfolding verifyembedded_def Let_def r sum.case beginmsg_def [symmetric]
      beginsig_def [symmetric] msg_def [symmetric] .
  then have b: "strncmp_eq data beginmsg (strlen beginmsg)"
    by (auto split: if_splits)
  have cb: "cstr beginmsg = beginmsg" and lb: "length beginmsg = 36"
    by (simp_all add: beginmsg_def cstr_def)
  have "take 36 beginmsg = beginmsg"
    using lb by simp
  with b have 1: "take 36 (cstr data) = beginmsg"
    unfolding strncmp_eq_def strlen_def cb lb by (simp only:)
  from v' b obtain first where f: "strstr msg beginsig = Some first"
    and s: "span = bytes_of (take (first + nextsig_loop (drop first msg) beginsig) msg)"
    by (auto split: option.splits sum.splits reop_verify_result.splits)
  define q where "q = nextsig_loop (drop first msg) beginsig"
  have p: "prefix beginsig (drop first msg)" and fl: "first \<le> length msg"
    using strstr_Some [OF f] by simp_all
  from nextsig_loop_is_last [OF ne p]
  have "prefix beginsig (drop (first + q) msg)"
    and "strstr (drop (Suc (first + q)) msg) beginsig = None"
    by (simp_all add: q_def add.commute)
  with s 1 show ?thesis
    unfolding q_def beginmsg_def beginsig_def msg_def by blast
qed

section \<open>Embedded signatures\<close>


text \<open>Claim C8, as amended. Whenever \<open>verifyembedded\<close> succeeds on a file that
  \<open>readallorfail\<close> has read (a regular file of more than 1 GiB is refused as too large), the
  part of the file before its first NUL byte begins with the \<open>SIGNED MESSAGE\<close> opener line, and
  the span that was verified runs from the end of that line to an occurrence of the
  \<open>SIGNATURE\<close> opener line after which that part of the file holds no further occurrence:
  the last one before the first NUL byte. Consequently, for every message without a NUL
  byte, signed by a generated key whose identity is a token of 1 to 63 bytes without white
  space, under which the key ring holds the public key: \<open>writesignedmsg\<close> writes a file (210
  bytes and the identity longer than the message) on which, when it is a regular file of at
  most 1 GiB, \<open>verifyembedded\<close> succeeds, and the span it verifies is the whole message,
  whatever the message contains, lines equal to the signature opener included.\<close>

theorem embedded_signature_last_opener:
  "(readallorfail sigfile = Inr data \<and> verifyembedded P' getpubkey' sigfile = Inr span
      \<longrightarrow> take 36 (cstr data) = ''-----BEGIN REOP SIGNED MESSAGE-----'' @ [CHR ''\<newline>'']
        \<and> (\<exists>n. span = bytes_of (take n (drop 36 (cstr data)))
              \<and> prefix (''-----BEGIN REOP SIGNATURE-----'' @ [CHR ''\<newline>''])
                   (drop n (drop 36 (cstr data)))
              \<and> strstr (drop (Suc n) (drop 36 (cstr data)))
                   (''-----BEGIN REOP SIGNATURE-----'' @ [CHR ''\<newline>'']) = None))
   \<and> (sign_contract P \<and> sign_size_contract P
      \<and> ident \<noteq> [] \<and> length ident \<le> 63 \<and> (\<forall>c\<in>set ident. \<not> isspace c \<and> c \<noteq> CHR 0x00)
      \<and> 0 \<notin> set msg \<and> length msg + length ident + 210 \<le> maxmsgsize
      \<and> getpubkey ident = Some (fst (fst (reop_generate P r ident)))
      \<longrightarrow> (\<exists>out. writesignedmsg (reop_sign P (snd (fst (reop_generate P r ident))) msg)
                   (sig_ident (reop_sign P (snd (fst (reop_generate P r ident))) msg)) msg
                   = Inr out
            \<and> length out = length msg + length ident + 210
            \<and> verifyembedded P getpubkey (Inr \<lparr>f_regular = True, f_data = out\<rparr>) = Inr msg))"
  (is "?A \<and> (?H \<longrightarrow> ?B)")
proof (rule conjI)
  show ?A
    using verified_span [of sigfile data P' getpubkey' span] by blast
next
  show "?H \<longrightarrow> ?B"
  proof (rule impI)
  assume H: ?H
  then have sc: "sign_contract P" and sz: "sign_size_contract P"
    and ident: "ident \<noteq> []" "length ident \<le> 63"
      "\<forall>c\<in>set ident. \<not> isspace c \<and> c \<noteq> CHR 0x00"
    and msg: "0 \<notin> set msg"
    and size: "length msg + length ident + 210 \<le> maxmsgsize"
    and gp: "getpubkey ident = Some (fst (fst (reop_generate P r ident)))"
    by blast+
  define sg where "sg = reop_sign P (snd (fst (reop_generate P r ident))) msg"
  define pub where "pub = fst (fst (reop_generate P r ident))"
  define B where "B = take sigsize (sig_bytes sg)"
  define W where "W = wrapped 0 (b64enc B)"
  define M where "M = string_of msg"
  define beginmsg where "beginmsg = ''-----BEGIN REOP SIGNED MESSAGE-----'' @ [CHR ''\<newline>'']"
  define beginsig where "beginsig = ''-----BEGIN REOP SIGNATURE-----'' @ [CHR ''\<newline>'']"
  define S where "S = signature_block ident B"
  have sp: "\<forall>c\<in>set ident. \<not> isspace c" and nul: "CHR 0x00 \<notin> set ident"
    using ident(3) by auto
  note I = isspace_ident_facts [OF sp]
  have space: "CHR '' '' \<notin> set ident"
    using sp by (auto simp: isspace_def)
  have wf: "wf_sig sg" and si: "sig_ident sg = ident"
    unfolding sg_def by (rule wf_sig_generated [OF sz ident(2) nul])+
  have lenB: "length B = sigsize"
    unfolding B_def by (rule bytes_sig_bytes(2) [OF wf])
  have wr: "writesignedmsg sg (sig_ident sg) msg = Inr (beginmsg @ M @ S)"
    and lenS: "length S = length ident + 174"
    unfolding si beginmsg_def M_def S_def B_def
    by (rule written_signed_file [OF wf ident(2) nul])+
  have len: "length (beginmsg @ M @ S) = length msg + length ident + 210"
    by (simp add: lenS beginmsg_def M_def string_of_def)
  have Sdef: "S = (''-----BEGIN REOP SIGNATURE-----'' @ [CHR ''\<newline>''])
                 @ (''ident:'' @ ident) @ CHR ''\<newline>''
                 # (W @ [CHR ''\<newline>''])
                 @ ''-----END REOP SIGNED MESSAGE-----'' @ CHR ''\<newline>'' # []"
    unfolding S_def W_def by (rule signature_block_def)
  have chars: "\<forall>c\<in>set (b64enc B). \<not> isspace c \<and> c \<noteq> CHR ''-'' \<and> c \<noteq> CHR 0x00"
    using set_b64enc [of B] b64_text_chars by blast
  have setW: "set W \<subseteq> set (b64enc B) \<union> {CHR ''\<newline>''}"
    unfolding W_def by (rule set_wrapped)
  have W1: "CHR 0x00 \<notin> set W" "CHR ''-'' \<notin> set W"
    using chars setW by auto
  have W2: "filter (\<lambda>c. \<not> isspace c) W = b64enc B"
    unfolding W_def using chars by (intro filter_wrapped) simp_all
  have nulM: "CHR 0x00 \<notin> set M"
    unfolding M_def by (rule string_of_no_nul [OF msg])
  have nulS: "CHR 0x00 \<notin> set S"
    using nul W1(1) by (simp add: Sdef)
  have rd: "readallorfail (Inr \<lparr>f_regular = True, f_data = beginmsg @ M @ S\<rparr>)
              = Inr (beginmsg @ M @ S)"
    using readallorfail_regular [of "\<lparr>f_regular = True, f_data = beginmsg @ M @ S\<rparr>"] size
    by (simp only: opened.simps len)
  have c: "cstr (beginmsg @ M @ S) = beginmsg @ M @ S"
    using nulM nulS by (intro cstr_id) (simp add: beginmsg_def)
  have b: "strncmp_eq (beginmsg @ M @ S) beginmsg (strlen beginmsg)"
    by (simp add: strncmp_eq_def c strlen_def) (simp add: beginmsg_def cstr_def)
  have d: "drop 36 (beginmsg @ M @ S) = M @ S"
    by (simp add: beginmsg_def)
  obtain first where f: "strstr (M @ S) beginsig = Some first"
    "first + nextsig_loop (drop first (M @ S)) beginsig = length M"
    using last_opener [OF space I(1) W1(2) Sdef, of M] unfolding beginsig_def by blast
  have tok: "scanf_s 63 (ident @ CHR ''\<newline>'' # W @ [CHR ''\<newline>'']) = ident"
    using ident(1) sp ident(2) by (rule scanf_s_token)
  have S': "S = (''-----BEGIN REOP '' @ ''SIGNATURE'' @ ''-----'') @ CHR ''\<newline>''
                    # (''ident:'' @ ident) @ CHR ''\<newline>''
                    # (W @ [CHR ''\<newline>'']) @ ''-----END REOP '' @ ''SIGNED MESSAGE-----'' @ [CHR ''\<newline>'']"
    by (simp add: Sdef)
  have "parsekeydata S ''SIGNATURE'' sigsize = Inr (B, ident)"
    using nul W1 I W2 lenB tok ident(1) no_marker_in_begin_line(3)
    by (intro parsekeydata_block [OF S']) simp_all
  then have ps: "reop_parsesig S = Inr sg"
    using bytes_sig_bytes(1) [OF wf, of ident] si
    by (simp add: reop_parsesig_def B_def)
  have v: "reop_verify P pub msg sg = REOP_V_OK"
    unfolding pub_def sg_def by (rule verify_sign_generated [OF sc])
  have dS: "drop (length M) (M @ S) = S" and tM: "take (length M) (M @ S) = M"
    by simp_all
  have bm: "bytes_of M = msg"
    by (simp add: M_def bytes_of_string_of)
  have gp': "getpubkey ident = Some pub"
    using gp by (simp add: pub_def)
  have "verifyembedded P getpubkey (Inr \<lparr>f_regular = True, f_data = beginmsg @ M @ S\<rparr>) = Inr msg"
    unfolding verifyembedded_def Let_def beginmsg_def [symmetric] beginsig_def [symmetric]
      rd sum.case c d
      f option.case dS tM ps si gp' bm v reop_verify_result.case
    using b by simp
  with wr len show ?B
    unfolding sg_def by blast
  qed
qed

section \<open>Verification of embedded signatures\<close>


lemma ex_decoy_no_nul: "0 \<notin> set ex_decoy_msg" and ex_decoy_length: "length ex_decoy_msg = 37"
  by (simp_all add: ex_decoy_msg_def bytes_of_def)

lemma ex_sig_wf:
  "wf_sig (reop_sign ref_prims (snd ex_alice) m)"
  "sig_ident (reop_sign ref_prims (snd ex_alice) m) = ''alice''"
  unfolding ex_alice_def
  by (rule wf_sig_generated [OF ref_sign_size_contract], simp, simp)+

theorem embedded_signature_last_opener_witness:
  "sign_contract ref_prims \<and> sign_size_contract ref_prims \<and> 0 \<notin> set ex_decoy_msg
   \<and> length ex_decoy_msg + length ''alice'' + 210 \<le> maxmsgsize
   \<and> ex_keyring ''alice'' = Some (fst ex_alice)
   \<and> prefix (bytes_of (''-----BEGIN REOP SIGNATURE-----'' @ [CHR ''\<newline>''])) ex_decoy_msg
   \<and> writesignedmsg ex_decoy_sig (sig_ident ex_decoy_sig) ex_decoy_msg = Inr ex_decoy_signed
   \<and> readallorfail (Inr \<lparr>f_regular = True, f_data = ex_decoy_signed\<rparr>) = Inr ex_decoy_signed
   \<and> verifyembedded ref_prims ex_keyring (Inr \<lparr>f_regular = True, f_data = ex_decoy_signed\<rparr>)
       = Inr ex_decoy_msg
   \<and> (\<exists>n. ex_decoy_msg = bytes_of (take n (drop 36 (cstr ex_decoy_signed)))
          \<and> prefix (''-----BEGIN REOP SIGNATURE-----'' @ [CHR ''\<newline>''])
               (drop n (drop 36 (cstr ex_decoy_signed)))
          \<and> strstr (drop (Suc n) (drop 36 (cstr ex_decoy_signed)))
               (''-----BEGIN REOP SIGNATURE-----'' @ [CHR ''\<newline>'']) = None)"
proof -
  note T = embedded_signature_last_opener [where P = ref_prims and ident = "''alice''"
      and msg = ex_decoy_msg and getpubkey = ex_keyring and r = ex_rand
      and P' = ref_prims and getpubkey' = ex_keyring
      and sigfile = "Inr \<lparr>f_regular = True, f_data = ex_decoy_signed\<rparr>"
      and data = ex_decoy_signed and span = ex_decoy_msg]
  have k: "ex_keyring ''alice'' = Some (fst (fst (reop_generate ref_prims ex_rand ''alice'')))"
    by (simp add: ex_keyring_def ex_alice_def)
  have i: "''alice'' \<noteq> []" "length ''alice'' \<le> 63"
    "\<forall>c\<in>set ''alice''. \<not> isspace c \<and> c \<noteq> CHR 0x00"
    by (simp_all add: isspace_def)
  have sz: "length ex_decoy_msg + length ''alice'' + 210 \<le> maxmsgsize"
    by (simp add: ex_decoy_length maxmsgsize_def)
  have p: "prefix (bytes_of (''-----BEGIN REOP SIGNATURE-----'' @ [CHR ''\<newline>''])) ex_decoy_msg"
    unfolding ex_decoy_msg_def bytes_of_def map_append by (rule prefixI) simp
  from T [THEN conjunct2] ref_sign_contract ref_sign_size_contract i ex_decoy_no_nul sz k
  obtain out where
    w: "writesignedmsg ex_decoy_sig (sig_ident ex_decoy_sig) ex_decoy_msg = Inr out"
    and l: "length out = length ex_decoy_msg + length ''alice'' + 210"
    and v: "verifyembedded ref_prims ex_keyring (Inr \<lparr>f_regular = True, f_data = out\<rparr>)
              = Inr ex_decoy_msg"
    unfolding ex_decoy_sig_def ex_alice_def by blast
  have o: "out = ex_decoy_signed"
    by (simp add: ex_decoy_signed_def w)
  have rd: "readallorfail (Inr \<lparr>f_regular = True, f_data = ex_decoy_signed\<rparr>) = Inr ex_decoy_signed"
    using readallorfail_regular [of "\<lparr>f_regular = True, f_data = ex_decoy_signed\<rparr>"] l sz
    by (simp add: o)
  from T [THEN conjunct1] rd v
  have "\<exists>n. ex_decoy_msg = bytes_of (take n (drop 36 (cstr ex_decoy_signed)))
          \<and> prefix (''-----BEGIN REOP SIGNATURE-----'' @ [CHR ''\<newline>''])
               (drop n (drop 36 (cstr ex_decoy_signed)))
          \<and> strstr (drop (Suc n) (drop 36 (cstr ex_decoy_signed)))
               (''-----BEGIN REOP SIGNATURE-----'' @ [CHR ''\<newline>'']) = None"
    unfolding o by blast
  with ref_sign_contract ref_sign_size_contract ex_decoy_no_nul sz k p w rd v show ?thesis
    unfolding o ex_keyring_def by (simp add: ex_alice_def)
qed

text \<open>The claim as stated fails: the message that consists of a NUL byte, a line equal to
  the signature opener and the line \<open>hello\<close> is signed by alice, the signature verifies
  as a detached one, and the signed file is written, 253 bytes that \<open>readallorfail\<close> reads;
  \<open>verifyembedded\<close> stops on that file with the error \<open>invalid signature\<close>, since \<open>strstr\<close>
  finds no opener before the NUL.\<close>

theorem embedded_signature_nul_message:
  "prefix (0 # bytes_of (''-----BEGIN REOP SIGNATURE-----'' @ [CHR ''\<newline>''])) ex_nul_msg
   \<and> reop_verify ref_prims (fst ex_alice) ex_nul_msg ex_nul_sig = REOP_V_OK
   \<and> writesignedmsg ex_nul_sig (sig_ident ex_nul_sig) ex_nul_msg = Inr ex_nul_signed
   \<and> readallorfail (Inr \<lparr>f_regular = True, f_data = ex_nul_signed\<rparr>) = Inr ex_nul_signed
   \<and> verifyembedded ref_prims ex_keyring (Inr \<lparr>f_regular = True, f_data = ex_nul_signed\<rparr>)
       = Inl Invalid_signature"
proof -
  define beginmsg where "beginmsg = ''-----BEGIN REOP SIGNED MESSAGE-----'' @ [CHR ''\<newline>'']"
  define beginsig where "beginsig = ''-----BEGIN REOP SIGNATURE-----'' @ [CHR ''\<newline>'']"
  define rest where "rest = string_of ex_decoy_msg
                              @ signature_block ''alice'' (take sigsize (sig_bytes ex_nul_sig))"
  have p: "prefix (0 # bytes_of (''-----BEGIN REOP SIGNATURE-----'' @ [CHR ''\<newline>''])) ex_nul_msg"
    unfolding ex_nul_msg_def ex_decoy_msg_def bytes_of_def map_append by (rule prefixI) simp
  have v: "reop_verify ref_prims (fst ex_alice) ex_nul_msg ex_nul_sig = REOP_V_OK"
    unfolding ex_nul_sig_def ex_alice_def by (rule verify_sign_generated [OF ref_sign_contract])
  have wf: "wf_sig ex_nul_sig" and si: "sig_ident ex_nul_sig = ''alice''"
    unfolding ex_nul_sig_def by (rule ex_sig_wf)+
  have m: "string_of ex_nul_msg = CHR 0x00 # string_of ex_decoy_msg"
    by (simp add: ex_nul_msg_def string_of_def char_of_def)
  have w: "writesignedmsg ex_nul_sig (sig_ident ex_nul_sig) ex_nul_msg
             = Inr (beginmsg @ CHR 0x00 # rest)"
    unfolding si written_signed_file(1) [OF wf, of "''alice''" ex_nul_msg, simplified] m
    by (simp add: beginmsg_def rest_def)
  then have s: "ex_nul_signed = beginmsg @ CHR 0x00 # rest"
    by (simp add: ex_nul_signed_def)
  have "length rest = 216"
    using written_signed_file(2) [OF wf, of "''alice''"]
    by (simp add: rest_def string_of_def ex_decoy_length)
  then have "length (beginmsg @ CHR 0x00 # rest) \<le> maxmsgsize"
    by (simp add: beginmsg_def maxmsgsize_def)
  then have rd: "readallorfail (Inr \<lparr>f_regular = True, f_data = beginmsg @ CHR 0x00 # rest\<rparr>)
                   = Inr (beginmsg @ CHR 0x00 # rest)"
    using readallorfail_regular [of "\<lparr>f_regular = True, f_data = beginmsg @ CHR 0x00 # rest\<rparr>"]
    by simp
  have nn: "CHR 0x00 \<notin> set beginmsg"
    by (simp add: beginmsg_def)
  then have c: "cstr (beginmsg @ CHR 0x00 # rest) = beginmsg"
    by (rule cstr_append_nul)
  have b: "strncmp_eq (beginmsg @ CHR 0x00 # rest) beginmsg (strlen beginmsg)"
    by (simp add: strncmp_eq_def c cstr_id [OF nn])
  have d: "drop 36 beginmsg = []"
    by (simp add: beginmsg_def)
  have n: "strstr [] beginsig = None"
    by (simp add: beginsig_def)
  have "verifyembedded ref_prims ex_keyring
          (Inr \<lparr>f_regular = True, f_data = beginmsg @ CHR 0x00 # rest\<rparr>) = Inl Invalid_signature"
    unfolding verifyembedded_def Let_def beginmsg_def [symmetric] beginsig_def [symmetric]
      rd sum.case c d n option.case
    using b by simp
  with p v w rd show ?thesis
    by (simp add: s)
qed

end
